theory Spec2Isabelle
  imports Main "HOL-Library.Word"
begin

unbundle bit_operations_syntax

section \<open>The Designer object inspector model (objectinspectormodel.cpp)\<close>

text \<open>
  The object inspector keeps a two-column tree of rows in step with the object graph of
  a form. It walks the graph into a flat snapshot (a list of \<open>ObjectData\<close>), compares the
  snapshot with the previous one, and either patches the rows in place or rebuilds them.
  The embedding below follows the source function by function. Everything the source
  reaches through Qt and Designer interfaces (objects, widgets, actions, the widget and
  meta data bases, container extensions, form windows) is read from a \<open>Host\<close> record.
\<close>

subsection \<open>Host objects\<close>

text \<open>A \<open>QObject *\<close> is an \<open>QObject option\<close>: \<open>None\<close> is \<open>nullptr\<close>, the number is
  the identity (address) of the object.\<close>

type_synonym QObject = nat
type_synonym FormWindowId = nat

text \<open>A \<open>QIcon\<close> is known to the source by \<open>isNull()\<close> and \<open>cacheKey()\<close> (a qint64) only.\<close>

datatype QIcon = NullIcon | Icon (cacheKey: "64 word")

definition isNull :: "QIcon \<Rightarrow> bool" where
  "isNull i = (case i of NullIcon \<Rightarrow> True | Icon k \<Rightarrow> False)"

datatype Type =
  Object | Action | SeparatorAction | ChildWidget | LayoutableContainer | LayoutWidget
  | ExtensionContainer

datatype LayoutType =
  NoLayout | HSplitter | VSplitter | HBox | VBox | Grid | Form | UnknownLayout

record WidgetDataBaseItem =
  wdb_icon :: QIcon
  wdb_name :: string
  wdb_isContainer :: bool

datatype Command =
  SetPropertyCommand (cmdProperty: string) (cmdValue: string) (cmdObject: QObject)
    (cmdFormWindow: FormWindowId)

text \<open>
  The host: the object heap (\<open>QObject\<close>, \<open>QWidget\<close>, \<open>QAction\<close> queries), the form editor
  core (widget data base, meta data base, extension manager, \<open>LayoutInfo\<close>), the form
  windows (main container, managed widgets, command history), and the translator.
  \<open>containerExtension h w\<close> is \<open>None\<close> when \<open>qt_extension\<close> returns null and otherwise
  the pages \<open>widget(0) .. widget(count() - 1)\<close>.
\<close>

record Host =
  metaClassName :: "QObject \<Rightarrow> string"
  objectName :: "QObject \<Rightarrow> string"
  isWidgetType :: "QObject \<Rightarrow> bool"
  children :: "QObject \<Rightarrow> QObject list"
  isQAction :: "QObject \<Rightarrow> bool"
  isSeparator :: "QObject \<Rightarrow> bool"
  actionIcon :: "QObject \<Rightarrow> QIcon"
  actionMenu :: "QObject \<Rightarrow> QObject option"
  isQButtonGroup :: "QObject \<Rightarrow> bool"
  isQLayoutWidget :: "QObject \<Rightarrow> bool"
  widgetLayout :: "QObject \<Rightarrow> QObject option"
  widgetActions :: "QObject \<Rightarrow> QObject list"
  widgetDataBaseItem :: "QObject \<Rightarrow> WidgetDataBaseItem option"
  metaDataBaseItem :: "QObject \<Rightarrow> bool"
  containerExtension :: "QObject \<Rightarrow> QObject option list option"
  layoutType :: "QObject \<Rightarrow> LayoutType"
  managedLayoutType :: "QObject \<Rightarrow> LayoutType"
  mainContainer :: "FormWindowId \<Rightarrow> QObject option"
  isManaged :: "FormWindowId \<Rightarrow> QObject \<Rightarrow> bool"
  commandHistory :: "FormWindowId \<Rightarrow> Command list"
  translate :: "string \<Rightarrow> string \<Rightarrow> string"
  createIconSet :: "string \<Rightarrow> QIcon"

datatype error = AssertionFailed | OutOfFuel

subsection \<open>ObjectData\<close>

record ModelRecursionContext =
  designerPrefix :: string
  separator :: string

definition mkModelRecursionContext :: "string \<Rightarrow> ModelRecursionContext" where
  "mkModelRecursionContext sepName =
     \<lparr>designerPrefix = ''QDesigner'', separator = sepName\<rparr>"

record ObjectData =
  m_parent :: "QObject option"
  m_object :: "QObject option"
  m_type :: Type
  m_className :: string
  m_objectName :: string
  m_classIcon :: QIcon
  m_managedLayoutType :: LayoutType

text \<open>
  Modelled from the spec: the class declaration (objectinspectormodel_p.h) is not among
  the sources, so the default member initialisers, the values of \<open>enum ChangedMask\<close>,
  \<open>operator==\<close> on entries and the column numbers are taken from the spec and from the
  comments of the source. The spec calls the result of \<open>compare\<close> a change-bitmask over
  class label, instance name, icon, type tag and layout-kind tag: one bit each. The layout
  kind is optional: \<open>UnknownLayout\<close> until a layout kind is found. The source's comment
  says that \<open>operator==\<close> "compares the object pointers", which is \<open>equals\<close>.
\<close>

definition defaultObjectData :: ObjectData where
  "defaultObjectData =
     \<lparr>m_parent = None, m_object = None, m_type = Object, m_className = [],
      m_objectName = [], m_classIcon = NullIcon, m_managedLayoutType = UnknownLayout\<rparr>"

definition ClassNameChanged :: "32 word" where "ClassNameChanged = 1"
definition ObjectNameChanged :: "32 word" where "ObjectNameChanged = 2"
definition ClassIconChanged :: "32 word" where "ClassIconChanged = 4"
definition TypeChanged :: "32 word" where "TypeChanged = 8"
definition LayoutTypeChanged :: "32 word" where "LayoutTypeChanged = 16"

definition sameIcon :: "QIcon \<Rightarrow> QIcon \<Rightarrow> bool" where
  "sameIcon i1 i2 =
     (if isNull i1 \<and> isNull i2 then True
      else if isNull i1 \<noteq> isNull i2 then False
      else cacheKey i1 = cacheKey i2)"

definition initObject :: "Host \<Rightarrow> ModelRecursionContext \<Rightarrow> QObject \<Rightarrow> ObjectData \<Rightarrow> ObjectData" where
  "initObject h ctx object d =
     (if isQAction h object then
        (if isSeparator h object
         then d\<lparr>m_objectName := separator ctx, m_type := SeparatorAction\<rparr>
         else d\<lparr>m_type := Action\<rparr>)\<lparr>m_classIcon := actionIcon h object\<rparr>
      else d\<lparr>m_type := Object\<rparr>)"

definition initWidget :: "Host \<Rightarrow> QObject \<Rightarrow> ObjectData \<Rightarrow> ObjectData" where
  "initWidget h w d =
     (let d1 = (case widgetDataBaseItem h w of
                  Some widgetItem \<Rightarrow>
                    d\<lparr>m_classIcon := wdb_icon widgetItem, m_className := wdb_name widgetItem\<rparr>
                | None \<Rightarrow> d);
          isContainer = (case widgetDataBaseItem h w of
                  Some widgetItem \<Rightarrow> wdb_isContainer widgetItem
                | None \<Rightarrow> False)
      in if isQLayoutWidget h w then
           (case widgetLayout h w of
              Some layout \<Rightarrow>
                d1\<lparr>m_type := LayoutWidget,
                   m_managedLayoutType := layoutType h layout,
                   m_className := metaClassName h layout,
                   m_objectName := objectName h layout\<rparr>
            | None \<Rightarrow> d1)
         else if containerExtension h w \<noteq> None then d1\<lparr>m_type := ExtensionContainer\<rparr>
         else if isContainer then
           d1\<lparr>m_type := LayoutableContainer, m_managedLayoutType := managedLayoutType h w\<rparr>
         else d1\<lparr>m_type := ChildWidget\<rparr>)"

text \<open>\<open>QString::startsWith\<close> and \<open>QString::remove(position, n)\<close>.\<close>

definition startsWith :: "string \<Rightarrow> string \<Rightarrow> bool" where
  "startsWith s p = (take (length p) s = p)"

definition removeAt :: "nat \<Rightarrow> nat \<Rightarrow> string \<Rightarrow> string" where
  "removeAt position n s = take position s @ drop (position + n) s"

definition mkObjectData ::
  "Host \<Rightarrow> ModelRecursionContext \<Rightarrow> QObject option \<Rightarrow> QObject \<Rightarrow> ObjectData" where
  "mkObjectData h ctx parent object =
     (let d0 = defaultObjectData\<lparr>m_parent := parent, m_object := Some object,
                 m_className := metaClassName h object, m_objectName := objectName h object\<rparr>;
          d1 = (if isWidgetType h object then initWidget h object d0
                else initObject h ctx object d0)
      in if startsWith (m_className d1) (designerPrefix ctx)
         then d1\<lparr>m_className := removeAt 1 (length (designerPrefix ctx) - 1) (m_className d1)\<rparr>
         else d1)"

definition equals :: "ObjectData \<Rightarrow> ObjectData \<Rightarrow> bool" where
  "equals this me = (m_parent this = m_parent me \<and> m_object this = m_object me)"

definition compare :: "ObjectData \<Rightarrow> ObjectData \<Rightarrow> 32 word" where
  "compare this rhs =
     (let rc = 0;
          rc = (if m_className this \<noteq> m_className rhs then rc OR ClassNameChanged else rc);
          rc = (if m_objectName this \<noteq> m_objectName rhs then rc OR ObjectNameChanged else rc);
          rc = (if \<not> sameIcon (m_classIcon this) (m_classIcon rhs)
                then rc OR ClassIconChanged else rc);
          rc = (if m_type this \<noteq> m_type rhs then rc OR TypeChanged else rc);
          rc = (if m_managedLayoutType this \<noteq> m_managedLayoutType rhs
                then rc OR LayoutTypeChanged else rc)
      in rc)"

type_synonym ObjectModel = "ObjectData list"

text \<open>\<open>QList::operator==\<close>: the same size and \<open>operator==\<close> (that is \<open>equals\<close>) at every
  position.\<close>

fun ObjectModel_eq :: "ObjectModel \<Rightarrow> ObjectModel \<Rightarrow> bool" where
  "ObjectModel_eq [] [] = True"
| "ObjectModel_eq (x # xs) (y # ys) = (equals x y \<and> ObjectModel_eq xs ys)"
| "ObjectModel_eq _ _ = False"

subsection \<open>The snapshot builder\<close>

text \<open>
  \<open>createModelRecursion\<close> recurses as deep as the object graph; nothing in the source bounds
  the depth (a menu may be reachable from one of its own actions), so the model takes fuel
  that bounds the nesting depth and returns \<open>Inl OutOfFuel\<close> when the bound is hit. The
  three loops of the function take the recursive call as a parameter \<open>rec\<close>.
\<close>

text \<open>Loop over the pages of the container extension; \<open>Q_ASSERT(page != nullptr)\<close>.\<close>

fun pagesLoop ::
  "(QObject \<Rightarrow> ObjectModel \<Rightarrow> error + ObjectModel) \<Rightarrow> QObject option list \<Rightarrow> ObjectModel
   \<Rightarrow> error + ObjectModel" where
  "pagesLoop rec [] model = Inr model"
| "pagesLoop rec (page # pages) model =
     (case page of
        None \<Rightarrow> Inl AssertionFailed
      | Some p \<Rightarrow>
          (case rec p model of
             Inl e \<Rightarrow> Inl e
           | Inr model' \<Rightarrow> pagesLoop rec pages model'))"

text \<open>Loop over \<open>object->children()\<close>; \<open>hasExtension\<close> is \<open>containerExtension != nullptr\<close>.
  Button groups with a meta data base entry are collected, not visited.\<close>

fun childrenLoop ::
  "Host \<Rightarrow> FormWindowId \<Rightarrow> bool \<Rightarrow> (QObject \<Rightarrow> ObjectModel \<Rightarrow> error + ObjectModel)
   \<Rightarrow> QObject list \<Rightarrow> QObject list \<Rightarrow> ObjectModel \<Rightarrow> error + (QObject list \<times> ObjectModel)" where
  "childrenLoop h fwi hasExtension rec [] buttonGroups model = Inr (buttonGroups, model)"
| "childrenLoop h fwi hasExtension rec (childObject # cs) buttonGroups model =
     (if isWidgetType h childObject then
        (if \<not> hasExtension then
           (if isManaged h fwi childObject then
              (case rec childObject model of
                 Inl e \<Rightarrow> Inl e
               | Inr model' \<Rightarrow> childrenLoop h fwi hasExtension rec cs buttonGroups model')
            else childrenLoop h fwi hasExtension rec cs buttonGroups model)
         else childrenLoop h fwi hasExtension rec cs buttonGroups model)
      else
        (if metaDataBaseItem h childObject then
           (if isQButtonGroup h childObject
            then childrenLoop h fwi hasExtension rec cs (buttonGroups @ [childObject]) model
            else childrenLoop h fwi hasExtension rec cs buttonGroups model)
         else childrenLoop h fwi hasExtension rec cs buttonGroups model))"

fun buttonGroupsLoop ::
  "(QObject \<Rightarrow> ObjectModel \<Rightarrow> error + ObjectModel) \<Rightarrow> QObject list \<Rightarrow> ObjectModel
   \<Rightarrow> error + ObjectModel" where
  "buttonGroupsLoop rec [] model = Inr model"
| "buttonGroupsLoop rec (bg # groups) model =
     (case rec bg model of
        Inl e \<Rightarrow> Inl e
      | Inr model' \<Rightarrow> buttonGroupsLoop rec groups model')"

text \<open>Loop over the actions of a widget: an action with a menu stands for the menu.\<close>

fun actionsLoop ::
  "Host \<Rightarrow> (QObject \<Rightarrow> ObjectModel \<Rightarrow> error + ObjectModel) \<Rightarrow> QObject list \<Rightarrow> ObjectModel
   \<Rightarrow> error + ObjectModel" where
  "actionsLoop h rec [] model = Inr model"
| "actionsLoop h rec (action # as) model =
     (if metaDataBaseItem h action then
        (let childObject = (case actionMenu h action of Some menu \<Rightarrow> menu | None \<Rightarrow> action)
         in case rec childObject model of
              Inl e \<Rightarrow> Inl e
            | Inr model' \<Rightarrow> actionsLoop h rec as model')
      else actionsLoop h rec as model)"

primrec createModelRecursion ::
  "nat \<Rightarrow> Host \<Rightarrow> FormWindowId \<Rightarrow> ModelRecursionContext \<Rightarrow> QObject option \<Rightarrow> QObject
   \<Rightarrow> ObjectModel \<Rightarrow> error + ObjectModel" where
  "createModelRecursion 0 h fwi ctx parent object model = Inl OutOfFuel"
| "createModelRecursion (Suc fuel) h fwi ctx parent object model =
     (let rec = (\<lambda>child m. createModelRecursion fuel h fwi ctx (Some object) child m);
          entry = mkObjectData h ctx parent object;
          model1 = model @ [entry];
          hasExtension = (m_type entry = ExtensionContainer);
          afterPages =
            (if m_type entry = ExtensionContainer then
               (case containerExtension h object of
                  None \<Rightarrow> Inl AssertionFailed
                | Some pages \<Rightarrow> pagesLoop rec pages model1)
             else Inr model1)
      in case afterPages of
           Inl e \<Rightarrow> Inl e
         | Inr model2 \<Rightarrow>
             (case (if children h object \<noteq> [] then
                      (case childrenLoop h fwi hasExtension rec (children h object) [] model2 of
                         Inl e \<Rightarrow> Inl e
                       | Inr (buttonGroups, model3) \<Rightarrow>
                           (if buttonGroups \<noteq> [] then buttonGroupsLoop rec buttonGroups model3
                            else Inr model3))
                    else Inr model2) of
                Inl e \<Rightarrow> Inl e
              | Inr model4 \<Rightarrow>
                  (if isWidgetType h object
                   then actionsLoop h rec (widgetActions h object) model4
                   else Inr model4)))"

subsection \<open>The presentation tree (QStandardItemModel)\<close>

text \<open>
  A \<open>QVariant\<close> as the model uses it, and a \<open>QStandardItem\<close> as the values it holds for the
  roles the model sets: the text (\<open>Qt::DisplayRole\<close>), the tool tip, the icon
  (\<open>Qt::DecorationRole\<close>), the object under \<open>DataRole\<close>, and the item flags.
\<close>

datatype QVariant = Invalid | VString string | VIcon QIcon | VObject "QObject option"

definition DisplayRole :: int where "DisplayRole = 0"
definition DecorationRole :: int where "DecorationRole = 1"
definition EditRole :: int where "EditRole = 2"
definition ToolTipRole :: int where "ToolTipRole = 3"
definition DataRole :: int where "DataRole = 1000"

definition ItemIsSelectable :: "32 word" where "ItemIsSelectable = 1"
definition ItemIsEditable :: "32 word" where "ItemIsEditable = 2"
definition ItemIsDropEnabled :: "32 word" where "ItemIsDropEnabled = 8"
definition ItemIsEnabled :: "32 word" where "ItemIsEnabled = 32"

record QStandardItem =
  itemText :: QVariant
  itemToolTip :: QVariant
  itemIcon :: QVariant
  itemObject :: QVariant
  itemFlags :: "32 word"

definition newStandardItem :: QStandardItem where
  "newStandardItem =
     \<lparr>itemText = Invalid, itemToolTip = Invalid, itemIcon = Invalid, itemObject = Invalid,
      itemFlags = 0\<rparr>"

text \<open>\<open>QStandardItem::data(role)\<close>: the edit role reads the display role.\<close>

definition QStandardItem_data :: "QStandardItem \<Rightarrow> int \<Rightarrow> QVariant" where
  "QStandardItem_data item role =
     (let r = (if role = EditRole then DisplayRole else role)
      in if r = DisplayRole then itemText item
         else if r = DecorationRole then itemIcon item
         else if r = ToolTipRole then itemToolTip item
         else if r = DataRole then itemObject item
         else Invalid)"

text \<open>
  A row is the \<open>StandardItemList\<close> of \<open>NumColumns = 2\<close> items that \<open>createModelRow\<close>
  allocates: the item of \<open>ObjectNameColumn\<close> and the item of \<open>ClassNameColumn\<close>. Child
  rows hang below the first item of a row. The tree is the list of top-level rows.
\<close>

record StandardItemList =
  nameItem :: QStandardItem
  classItem :: QStandardItem

datatype TreeRow = TreeRow (rowItems: StandardItemList) (childRows: "TreeRow list")

definition NumColumns :: nat where "NumColumns = 2"
definition ObjectNameColumn :: nat where "ObjectNameColumn = 0"
definition ClassNameColumn :: nat where "ClassNameColumn = 1"

text \<open>
  A \<open>QModelIndex\<close>: invalid, or the path of row numbers from the top level down to the row,
  and the column. The index map of the model only ever stores \<open>indexFromItem\<close> of the
  first item of a row, so a stored index is the path alone.
\<close>

datatype QModelIndex = InvalidIndex | ModelIndex (indexPath: "nat list") (indexColumn: nat)

fun rowAtPath :: "nat list \<Rightarrow> TreeRow list \<Rightarrow> TreeRow option" where
  "rowAtPath [] rs = None"
| "rowAtPath (i # p) rs =
     (if i < length rs
      then (if p = [] then Some (rs ! i) else rowAtPath p (childRows (rs ! i)))
      else None)"

text \<open>\<open>appendRow\<close> on the item at a path (on the invisible root for the empty path).\<close>

fun appendRowAt :: "nat list \<Rightarrow> TreeRow \<Rightarrow> TreeRow list \<Rightarrow> TreeRow list" where
  "appendRowAt [] new rs = rs @ [new]"
| "appendRowAt (i # p) new rs =
     (if i < length rs
      then rs[i := TreeRow (rowItems (rs ! i)) (appendRowAt p new (childRows (rs ! i)))]
      else rs)"

text \<open>Writing the items of the row at a path (the setters act through item pointers).\<close>

fun updateRowAt ::
  "nat list \<Rightarrow> (StandardItemList \<Rightarrow> StandardItemList) \<Rightarrow> TreeRow list \<Rightarrow> TreeRow list" where
  "updateRowAt [] f rs = rs"
| "updateRowAt (i # p) f rs =
     (if i < length rs
      then (if p = [] then rs[i := TreeRow (f (rowItems (rs ! i))) (childRows (rs ! i))]
            else rs[i := TreeRow (rowItems (rs ! i)) (updateRowAt p f (childRows (rs ! i)))])
      else rs)"

fun countRows :: "TreeRow \<Rightarrow> nat" where
  "countRows (TreeRow items kids) = Suc (sum_list (map countRows kids))"

definition countAllRows :: "TreeRow list \<Rightarrow> nat" where
  "countAllRows rs = sum_list (map countRows rs)"

text \<open>The shape of a tree: the rows without what they display.\<close>

datatype Shape = Shape "Shape list"

fun shapeOf :: "TreeRow \<Rightarrow> Shape" where
  "shapeOf (TreeRow items kids) = Shape (map shapeOf kids)"

subsection \<open>ObjectData: writing a row\<close>

definition createModelRow :: "QObject option \<Rightarrow> StandardItemList" where
  "createModelRow o' =
     (let baseFlags = ItemIsSelectable OR ItemIsDropEnabled OR ItemIsEnabled;
          isNameColumnEditable = True
      in \<lparr>nameItem = newStandardItem\<lparr>itemFlags :=
              (if isNameColumnEditable then baseFlags OR ItemIsEditable else baseFlags)\<rparr>,
          classItem = newStandardItem\<lparr>itemFlags := baseFlags\<rparr>\<rparr>)"

definition setItemsDisplayData ::
  "ObjectData \<Rightarrow> (LayoutType \<Rightarrow> QIcon) \<Rightarrow> 32 word \<Rightarrow> StandardItemList \<Rightarrow> StandardItemList" where
  "setItemsDisplayData this layoutIcons changedMask row =
     (let row1 = (if changedMask AND ObjectNameChanged \<noteq> 0
                  then row\<lparr>nameItem := (nameItem row)\<lparr>itemText := VString (m_objectName this)\<rparr>\<rparr>
                  else row);
          row2 = (if changedMask AND ClassNameChanged \<noteq> 0
                  then row1\<lparr>classItem := (classItem row1)
                          \<lparr>itemText := VString (m_className this),
                           itemToolTip := VString (m_className this)\<rparr>\<rparr>
                  else row1)
      in if changedMask AND (ClassIconChanged OR TypeChanged OR LayoutTypeChanged) \<noteq> 0 then
           (case m_type this of
              LayoutWidget \<Rightarrow>
                row2\<lparr>nameItem := (nameItem row2)
                        \<lparr>itemIcon := VIcon (layoutIcons (m_managedLayoutType this))\<rparr>,
                     classItem := (classItem row2)
                        \<lparr>itemIcon := VIcon (layoutIcons (m_managedLayoutType this))\<rparr>\<rparr>
            | LayoutableContainer \<Rightarrow>
                row2\<lparr>nameItem := (nameItem row2)
                        \<lparr>itemIcon := VIcon (layoutIcons (m_managedLayoutType this))\<rparr>,
                     classItem := (classItem row2)\<lparr>itemIcon := VIcon (m_classIcon this)\<rparr>\<rparr>
            | _ \<Rightarrow>
                row2\<lparr>nameItem := (nameItem row2)\<lparr>itemIcon := VIcon NullIcon\<rparr>,
                     classItem := (classItem row2)\<lparr>itemIcon := VIcon (m_classIcon this)\<rparr>\<rparr>)
         else row2)"

definition setItems ::
  "ObjectData \<Rightarrow> (LayoutType \<Rightarrow> QIcon) \<Rightarrow> StandardItemList \<Rightarrow> StandardItemList" where
  "setItems this layoutIcons row =
     (let object = VObject (m_object this);
          row1 = row\<lparr>nameItem := (nameItem row)\<lparr>itemObject := object\<rparr>,
                     classItem := (classItem row)\<lparr>itemObject := object\<rparr>\<rparr>
      in setItemsDisplayData this layoutIcons
           (ClassNameChanged OR ObjectNameChanged OR ClassIconChanged OR TypeChanged
            OR LayoutTypeChanged) row1)"

subsection \<open>ObjectInspectorModel\<close>

datatype UpdateResult = NoForm | Rebuilt | Updated

text \<open>
  The state of the model: its own members and, as \<open>modelRows\<close>, the rows of the
  \<open>QStandardItemModel\<close> it derives from. \<open>m_objectIndexMultiMap\<close> is the \<open>QMultiMap\<close> as
  the list of its insertions, the latest first: \<open>values(key)\<close> lists the values of a key
  from the latest insertion to the earliest, \<open>value(key, default)\<close> is the latest.
  \<open>m_formWindow\<close> is a \<open>QPointer\<close>; form windows are not destroyed in this model, so it is
  null only where the source sets it so.
\<close>

record ObjectInspectorModel =
  m_icons :: "LayoutType \<Rightarrow> QIcon"
  m_objectIndexMultiMap :: "(QObject option \<times> nat list) list"
  m_model :: ObjectModel
  m_formWindow :: "FormWindowId option"
  modelRows :: "TreeRow list"

definition multiMapInsert ::
  "QObject option \<Rightarrow> nat list \<Rightarrow> (QObject option \<times> nat list) list
   \<Rightarrow> (QObject option \<times> nat list) list" where
  "multiMapInsert key v mm = (key, v) # mm"

definition multiMapValues :: "(QObject option \<times> nat list) list \<Rightarrow> QObject option \<Rightarrow> nat list list" where
  "multiMapValues mm key = map snd (filter (\<lambda>kv. fst kv = key) mm)"

definition multiMapValue :: "(QObject option \<times> nat list) list \<Rightarrow> QObject option \<Rightarrow> nat list option" where
  "multiMapValue mm key = (case multiMapValues mm key of [] \<Rightarrow> None | v # vs \<Rightarrow> Some v)"

text \<open>The constructor: no rows, no form window, the seven layout icons.\<close>

definition newObjectInspectorModel :: "Host \<Rightarrow> ObjectInspectorModel" where
  "newObjectInspectorModel h =
     \<lparr>m_icons = (\<lambda>t. case t of
          NoLayout \<Rightarrow> createIconSet h ''editbreaklayout.png''
        | HSplitter \<Rightarrow> createIconSet h ''edithlayoutsplit.png''
        | VSplitter \<Rightarrow> createIconSet h ''editvlayoutsplit.png''
        | HBox \<Rightarrow> createIconSet h ''edithlayout.png''
        | VBox \<Rightarrow> createIconSet h ''editvlayout.png''
        | Grid \<Rightarrow> createIconSet h ''editgrid.png''
        | Form \<Rightarrow> createIconSet h ''editform.png''
        | UnknownLayout \<Rightarrow> NullIcon),
      m_objectIndexMultiMap = [],
      m_model = [],
      m_formWindow = None,
      modelRows = []\<rparr>"

text \<open>\<open>QStandardItemModel::removeRow(0)\<close>: removes the first top-level row with all the rows
  below it; does nothing (and returns false) when there is no row.\<close>

definition removeRow0 :: "TreeRow list \<Rightarrow> TreeRow list" where
  "removeRow0 rs = (case rs of [] \<Rightarrow> [] | r # rest \<Rightarrow> rest)"

definition clearItems :: "ObjectInspectorModel \<Rightarrow> ObjectInspectorModel" where
  "clearItems st =
     st\<lparr>m_objectIndexMultiMap := [], m_model := [], modelRows := removeRow0 (modelRows st)\<rparr>"

text \<open>
  The loop of \<open>rebuild\<close> over the entries after the first: the parent's row is found through
  the index map (\<open>Q_ASSERT(parentIndex.isValid())\<close>; \<open>itemFromIndex\<close> of an index that
  names no row gives no item to append to), the new row is appended below it, and its
  index, the parent's path and the row number, is inserted into the map.
\<close>

fun rebuildLoop :: "ObjectInspectorModel \<Rightarrow> ObjectModel \<Rightarrow> error + ObjectInspectorModel" where
  "rebuildLoop st [] = Inr st"
| "rebuildLoop st (it # its) =
     (case multiMapValue (m_objectIndexMultiMap st) (m_parent it) of
        None \<Rightarrow> Inl AssertionFailed
      | Some parentIndex \<Rightarrow>
          (case rowAtPath parentIndex (modelRows st) of
             None \<Rightarrow> Inl AssertionFailed
           | Some parentItem \<Rightarrow>
               (let row = setItems it (m_icons st) (createModelRow (m_object it))
                in rebuildLoop
                     (st\<lparr>modelRows := appendRowAt parentIndex (TreeRow row []) (modelRows st),
                         m_objectIndexMultiMap :=
                           multiMapInsert (m_object it)
                             (parentIndex @ [length (childRows parentItem)])
                             (m_objectIndexMultiMap st)\<rparr>)
                     its)))"

definition rebuild :: "ObjectInspectorModel \<Rightarrow> ObjectModel \<Rightarrow> error + ObjectInspectorModel" where
  "rebuild st newModel =
     (let st0 = clearItems st
      in case newModel of
           [] \<Rightarrow> Inr st0
         | it # its \<Rightarrow>
             (let rootRow = setItems it (m_icons st0) (createModelRow (m_object it))
              in rebuildLoop
                   (st0\<lparr>modelRows := appendRowAt [] (TreeRow rootRow []) (modelRows st0),
                        m_objectIndexMultiMap :=
                          multiMapInsert (m_object it) [length (modelRows st0)]
                            (m_objectIndexMultiMap st0)\<rparr>)
                   its))"

text \<open>
  \<open>updateItemContents\<close>. The loop decides from the two snapshots, the set of changed
  objects and the index map alone which rows are written, so it is modelled in two steps:
  \<open>updateItemContentsLoop\<close> returns the patched old snapshot and the calls of
  \<open>setItemsDisplayData\<close> in the order the source makes them, and \<open>applyPatchCalls\<close> makes
  them on the rows.
\<close>

record PatchCall =
  patchIndex :: "nat list"
  patchEntry :: ObjectData
  patchMask :: "32 word"

fun updateItemContentsLoop ::
  "(QObject option \<times> nat list) list \<Rightarrow> QObject option set \<Rightarrow> ObjectModel \<Rightarrow> ObjectModel
   \<Rightarrow> ObjectModel \<times> PatchCall list" where
  "updateItemContentsLoop mm changedObjects (entry # oldModel) (newEntry # newModel) =
     (let changedMask = compare entry newEntry
      in if changedMask \<noteq> 0 then
           (let o' = m_object newEntry
            in if o' \<notin> changedObjects then
                 (let calls = map (\<lambda>index. \<lparr>patchIndex = index, patchEntry = newEntry,
                                              patchMask = changedMask\<rparr>)
                                  (multiMapValues mm o');
                      r = updateItemContentsLoop mm (insert o' changedObjects) oldModel newModel
                  in (newEntry # fst r, calls @ snd r))
               else
                 (let r = updateItemContentsLoop mm changedObjects oldModel newModel
                  in (newEntry # fst r, snd r)))
         else
           (let r = updateItemContentsLoop mm changedObjects oldModel newModel
            in (entry # fst r, snd r)))"
| "updateItemContentsLoop mm changedObjects oldModel newModel = (oldModel, [])"

fun applyPatchCalls ::
  "(LayoutType \<Rightarrow> QIcon) \<Rightarrow> PatchCall list \<Rightarrow> TreeRow list \<Rightarrow> error + TreeRow list" where
  "applyPatchCalls icons [] rs = Inr rs"
| "applyPatchCalls icons (c # cs) rs =
     (case rowAtPath (patchIndex c) rs of
        None \<Rightarrow> Inl AssertionFailed
      | Some r \<Rightarrow>
          applyPatchCalls icons cs
            (updateRowAt (patchIndex c)
               (setItemsDisplayData (patchEntry c) icons (patchMask c)) rs))"

definition updateItemContents ::
  "ObjectInspectorModel \<Rightarrow> ObjectModel \<Rightarrow> error + ObjectInspectorModel" where
  "updateItemContents st newModel =
     (if length (m_model st) \<noteq> length newModel then Inl AssertionFailed
      else
        (let r = updateItemContentsLoop (m_objectIndexMultiMap st) {} (m_model st) newModel
         in case applyPatchCalls (m_icons st) (snd r) (modelRows st) of
              Inl e \<Rightarrow> Inl e
            | Inr rows \<Rightarrow> Inr (st\<lparr>m_model := fst r, modelRows := rows\<rparr>)))"

text \<open>
  \<open>update\<close>. The translated separator name is a function-local static of the source,
  translated once; the model reads the translation from the host it is given.
\<close>

definition update ::
  "nat \<Rightarrow> Host \<Rightarrow> FormWindowId option \<Rightarrow> ObjectInspectorModel
   \<Rightarrow> error + (UpdateResult \<times> ObjectInspectorModel)" where
  "update fuel h fw st =
     (case (fw, case fw of None \<Rightarrow> None | Some f \<Rightarrow> mainContainer h f) of
        (Some f, Some container) \<Rightarrow>
          (let st1 = st\<lparr>m_formWindow := fw\<rparr>;
               ctx = mkModelRecursionContext (translate h ''ObjectInspectorModel'' ''separator'')
           in case createModelRecursion fuel h f ctx None container [] of
                Inl e \<Rightarrow> Inl e
              | Inr newModel \<Rightarrow>
                  (if ObjectModel_eq newModel (m_model st1) then
                     (case updateItemContents st1 newModel of
                        Inl e \<Rightarrow> Inl e
                      | Inr st2 \<Rightarrow> Inr (Updated, st2))
                   else
                     (case rebuild st1 newModel of
                        Inl e \<Rightarrow> Inl e
                      | Inr st2 \<Rightarrow> Inr (Rebuilt, st2\<lparr>m_model := newModel\<rparr>))))
      | _ \<Rightarrow> Inr (NoForm, (clearItems st)\<lparr>m_formWindow := None\<rparr>))"

text \<open>\<open>itemFromIndex\<close>, \<open>objectOfItem\<close> and \<open>objectAt\<close>.\<close>

definition itemFromIndex :: "TreeRow list \<Rightarrow> QModelIndex \<Rightarrow> QStandardItem option" where
  "itemFromIndex rs index =
     (case index of
        InvalidIndex \<Rightarrow> None
      | ModelIndex p c \<Rightarrow>
          (case rowAtPath p rs of
             None \<Rightarrow> None
           | Some r \<Rightarrow>
               (if c = ObjectNameColumn then Some (nameItem (rowItems r))
                else if c = ClassNameColumn then Some (classItem (rowItems r))
                else None)))"

definition objectOfItem :: "QStandardItem \<Rightarrow> QObject option" where
  "objectOfItem item =
     (case QStandardItem_data item DataRole of VObject p \<Rightarrow> p | _ \<Rightarrow> None)"

definition objectAt :: "ObjectInspectorModel \<Rightarrow> QModelIndex \<Rightarrow> QObject option" where
  "objectAt st index =
     (case index of
        InvalidIndex \<Rightarrow> None
      | ModelIndex p c \<Rightarrow>
          (case itemFromIndex (modelRows st) index of
             Some item \<Rightarrow> objectOfItem item
           | None \<Rightarrow> None))"

text \<open>\<open>QStandardItemModel::data\<close>: the data of the item of the index, invalid without one.\<close>

definition QStandardItemModel_data :: "ObjectInspectorModel \<Rightarrow> QModelIndex \<Rightarrow> int \<Rightarrow> QVariant" where
  "QStandardItemModel_data st index role =
     (case itemFromIndex (modelRows st) index of
        None \<Rightarrow> Invalid
      | Some item \<Rightarrow> QStandardItem_data item role)"

definition data :: "Host \<Rightarrow> ObjectInspectorModel \<Rightarrow> QModelIndex \<Rightarrow> int \<Rightarrow> QVariant" where
  "data h st index role =
     (let rc = QStandardItemModel_data st index role
      in case rc of
           VString s \<Rightarrow>
             (if role = DisplayRole \<and> s = []
              then VString (translate h ''ObjectInspectorModel'' ''<noname>'')
              else rc)
         | _ \<Rightarrow> rc)"

text \<open>\<open>QVariant::toString\<close>: the string of a string variant, the empty string of the
  variants that do not convert.\<close>

definition toString :: "QVariant \<Rightarrow> string" where
  "toString v = (case v of VString s \<Rightarrow> s | _ \<Rightarrow> [])"

text \<open>
  \<open>createTextPropertyCommand\<close> (qdesigner_utils) builds the set-property command for a
  string property; \<open>QUndoStack::push\<close> appends it to the command history of the form window.
\<close>

definition createTextPropertyCommand ::
  "string \<Rightarrow> string \<Rightarrow> QObject \<Rightarrow> FormWindowId \<Rightarrow> Command" where
  "createTextPropertyCommand propertyName text object fw =
     SetPropertyCommand propertyName text object fw"

definition pushCommand :: "FormWindowId \<Rightarrow> Command \<Rightarrow> Host \<Rightarrow> Host" where
  "pushCommand fw cmd h = h\<lparr>commandHistory := (commandHistory h)(fw := commandHistory h fw @ [cmd])\<rparr>"

definition setData ::
  "Host \<Rightarrow> ObjectInspectorModel \<Rightarrow> QModelIndex \<Rightarrow> QVariant \<Rightarrow> int
   \<Rightarrow> bool \<times> Host \<times> ObjectInspectorModel" where
  "setData h st index v role =
     (if role \<noteq> EditRole then (False, h, st)
      else
        (case m_formWindow st of
           None \<Rightarrow> (False, h, st)
         | Some formWindow \<Rightarrow>
             (case objectAt st index of
                None \<Rightarrow> (False, h, st)
              | Some object \<Rightarrow>
                  (let nameProperty =
                         (if isQLayoutWidget h object then ''layoutName'' else ''objectName'')
                   in (True,
                       pushCommand formWindow
                         (createTextPropertyCommand nameProperty (toString v) object formWindow) h,
                       st)))))"


subsection \<open>Properties of snapshots\<close>

text \<open>Every entry's parent is in \<open>S\<close> or is the object of an earlier entry.\<close>

fun parentsKnown :: "QObject option set \<Rightarrow> ObjectModel \<Rightarrow> bool" where
  "parentsKnown S [] = True"
| "parentsKnown S (e # es) = (m_parent e \<in> S \<and> parentsKnown (insert (m_object e) S) es)"

text \<open>A recursive call only appends, and what it appends has its parents in place.\<close>

definition addsSegments :: "QObject option \<Rightarrow> (QObject \<Rightarrow> ObjectModel \<Rightarrow> error + ObjectModel) \<Rightarrow> bool" where
  "addsSegments par rec = (\<forall>c m r. rec c m = Inr r \<longrightarrow> (\<exists>seg. r = m @ seg \<and> parentsKnown {par} seg))"


subsection \<open>Properties of the model state\<close>

text \<open>
  The index map and the rows after a rebuild from a snapshot: read in the order of
  insertion, the map has one entry per entry of the snapshot, keyed by the entry's object
  and naming a row that displays the entry; no two entries of the map name the same row;
  and the tree has as many rows as the snapshot has entries.
\<close>

definition rowsHold ::
  "(LayoutType \<Rightarrow> QIcon) \<Rightarrow> ObjectModel \<Rightarrow> (QObject option \<times> nat list) list \<Rightarrow> TreeRow list
   \<Rightarrow> bool" where
  "rowsHold icons entries mm rows =
     list_all2
       (\<lambda>e kp. fst kp = m_object e \<and>
          (case rowAtPath (snd kp) rows of
             None \<Rightarrow> False
           | Some r \<Rightarrow> rowItems r = setItems e icons (createModelRow (m_object e))))
       entries (rev mm)"

definition exactlyRebuilt ::
  "(LayoutType \<Rightarrow> QIcon) \<Rightarrow> ObjectModel \<Rightarrow> (QObject option \<times> nat list) list \<Rightarrow> TreeRow list
   \<Rightarrow> bool" where
  "exactlyRebuilt icons entries mm rows =
     (rowsHold icons entries mm rows \<and> distinct (map snd mm) \<and>
      countAllRows rows = length entries)"

text \<open>A snapshot that \<open>rebuild\<close> can place: empty, or every entry after the first has the
  object of an earlier entry as its parent.\<close>

definition parentsInPlace :: "ObjectModel \<Rightarrow> bool" where
  "parentsInPlace entries =
     (case entries of [] \<Rightarrow> True | e # rest \<Rightarrow> parentsKnown {m_object e} rest)"

text \<open>The class invariant: at most one top-level row, and every index of the map names
  a row.\<close>

definition modelInvariant :: "ObjectInspectorModel \<Rightarrow> bool" where
  "modelInvariant st =
     (length (modelRows st) \<le> 1 \<and>
      list_all (\<lambda>kp. rowAtPath (snd kp) (modelRows st) \<noteq> None) (m_objectIndexMultiMap st))"

text \<open>The states of a model: constructed, then updated any number of times, against any
  host (the form changes between updates).\<close>

inductive reachable :: "ObjectInspectorModel \<Rightarrow> bool" where
  reachable_new: "reachable (newObjectInspectorModel h)"
| reachable_update: "reachable st \<Longrightarrow> update fuel h fw st = Inr (r, st') \<Longrightarrow> reachable st'"

definition identityPairs :: "ObjectModel \<Rightarrow> (QObject option \<times> QObject option) list" where
  "identityPairs entries = map (\<lambda>e. (m_parent e, m_object e)) entries"

text \<open>A snapshot is coherent when the entries of one object agree in their display
  attributes, whatever their parents are; and one snapshot displays another when they
  agree, position by position, in the object and in the display attributes.\<close>

definition coherent :: "ObjectModel \<Rightarrow> bool" where
  "coherent entries =
     (\<forall>a\<in>set entries. \<forall>b\<in>set entries. m_object a = m_object b \<longrightarrow> compare a b = 0)"

definition displaysLike :: "ObjectModel \<Rightarrow> ObjectModel \<Rightarrow> bool" where
  "displaysLike xs ys = list_all2 (\<lambda>x y. m_object x = m_object y \<and> compare x y = 0) xs ys"

subsection \<open>What the builder recurses into\<close>

text \<open>
  The objects a node's recursion visits, in order, as the specification lists them and
  with the two tests the source adds (a child object must be a button group as well as
  have a meta data base entry; an action must have a meta data base entry): the pages of
  the container extension if the node is an extension container, else its managed widget
  children; then the button groups among its children; then, for a widget, its actions,
  an action with a menu replaced by the menu.
\<close>

definition menuOrAction :: "Host \<Rightarrow> QObject \<Rightarrow> QObject" where
  "menuOrAction h action = (case actionMenu h action of Some menu \<Rightarrow> menu | None \<Rightarrow> action)"

definition recursionTargets :: "Host \<Rightarrow> FormWindowId \<Rightarrow> QObject \<Rightarrow> Type \<Rightarrow> QObject option list" where
  "recursionTargets h fwi object t =
     (if t = ExtensionContainer
      then (case containerExtension h object of Some pages \<Rightarrow> pages | None \<Rightarrow> [])
      else map Some (filter (\<lambda>c. isWidgetType h c \<and> isManaged h fwi c) (children h object)))
     @ map Some (filter (\<lambda>c. \<not> isWidgetType h c \<and> metaDataBaseItem h c \<and> isQButtonGroup h c)
                   (children h object))
     @ (if isWidgetType h object
        then map (\<lambda>a. Some (menuOrAction h a)) (filter (metaDataBaseItem h) (widgetActions h object))
        else [])"

text \<open>The same list as the specification words it: every child object with a meta data
  base entry, and every attached action.\<close>

definition claimedTargets :: "Host \<Rightarrow> FormWindowId \<Rightarrow> QObject \<Rightarrow> Type \<Rightarrow> QObject option list" where
  "claimedTargets h fwi object t =
     (if t = ExtensionContainer
      then (case containerExtension h object of Some pages \<Rightarrow> pages | None \<Rightarrow> [])
      else map Some (filter (\<lambda>c. isWidgetType h c \<and> isManaged h fwi c) (children h object)))
     @ map Some (filter (\<lambda>c. \<not> isWidgetType h c \<and> metaDataBaseItem h c) (children h object))
     @ (if isWidgetType h object
        then map (\<lambda>a. Some (menuOrAction h a)) (widgetActions h object)
        else [])"

text \<open>\<open>subs\<close> are the snapshots of the targets, each taken on its own.\<close>

definition visitsEach ::
  "(QObject \<Rightarrow> ObjectModel \<Rightarrow> error + ObjectModel) \<Rightarrow> QObject option list \<Rightarrow> ObjectModel list
   \<Rightarrow> bool" where
  "visitsEach rec targets subs =
     list_all2 (\<lambda>t sub. case t of None \<Rightarrow> False | Some c \<Rightarrow> rec c [] = Inr sub) targets subs"

text \<open>A recursive call returns the model it was given with its own snapshot appended.\<close>

definition appendsSnapshot :: "(QObject \<Rightarrow> ObjectModel \<Rightarrow> error + ObjectModel) \<Rightarrow> bool" where
  "appendsSnapshot rec =
     (\<forall>c m r. (rec c m = Inr r) = (\<exists>sub. rec c [] = Inr sub \<and> r = m @ sub))"

subsection \<open>A form to run the model on\<close>

text \<open>
  Form window 0 with the main container 1 (a \<open>QDesignerWidget\<close>). Its children are the
  managed push button 2, the button group 3 (which has no name), and the layout object 5, which has a meta
  data base entry and is no widget and no button group. Its actions are 4, whose menu is
  the widget 8, then 9, and 7, which has no meta data base entry. The menu 8 has the one
  action 9, so 9 occurs twice in a snapshot. Form window 1 has no main container.
\<close>

definition demoHost :: Host where
  "demoHost =
     \<lparr>metaClassName = (\<lambda>x. if x = 1 then ''QDesignerWidget'' else if x = 2 then ''QPushButton''
          else if x = 3 then ''QButtonGroup'' else if x = 5 then ''QVBoxLayout''
          else if x = 8 then ''QMenu'' else ''QAction''),
      objectName = (\<lambda>x. if x = 1 then ''Form'' else if x = 2 then ''pushButton''
          else if x = 5 then ''verticalLayout''
          else if x = 8 then ''menuFile'' else if x = 9 then ''actionOpen'' else []),
      isWidgetType = (\<lambda>x. x = 1 \<or> x = 2 \<or> x = 8),
      children = (\<lambda>x. if x = 1 then [2, 3, 5] else []),
      isQAction = (\<lambda>x. x = 4 \<or> x = 7 \<or> x = 9),
      isSeparator = (\<lambda>x. False),
      actionIcon = (\<lambda>x. NullIcon),
      actionMenu = (\<lambda>x. if x = 4 then Some 8 else None),
      isQButtonGroup = (\<lambda>x. x = 3),
      isQLayoutWidget = (\<lambda>x. False),
      widgetLayout = (\<lambda>x. None),
      widgetActions = (\<lambda>x. if x = 1 then [4, 9, 7] else if x = 8 then [9] else []),
      widgetDataBaseItem = (\<lambda>x. None),
      metaDataBaseItem = (\<lambda>x. x \<noteq> 7),
      containerExtension = (\<lambda>x. None),
      layoutType = (\<lambda>x. NoLayout),
      managedLayoutType = (\<lambda>x. NoLayout),
      mainContainer = (\<lambda>f. if f = 0 then Some 1 else None),
      isManaged = (\<lambda>f x. True),
      commandHistory = (\<lambda>f. []),
      translate = (\<lambda>c s. s),
      createIconSet = (\<lambda>s. Icon (of_nat (length s)))\<rparr>"

text \<open>The same form after the action 9 was renamed.\<close>

definition renamedHost :: Host where
  "renamedHost =
     demoHost\<lparr>objectName := (\<lambda>x. if x = 9 then ''actionLoad'' else objectName demoHost x)\<rparr>"

definition demoContext :: ModelRecursionContext where
  "demoContext = mkModelRecursionContext ''separator''"

text \<open>The snapshot of the form, and the model after its first update on the form.\<close>

definition demoSnapshot :: ObjectModel where
  "demoSnapshot =
     [\<lparr>m_parent = None, m_object = Some 1, m_type = ChildWidget, m_className = ''QWidget'',
       m_objectName = ''Form'', m_classIcon = NullIcon, m_managedLayoutType = UnknownLayout\<rparr>,
      \<lparr>m_parent = Some 1, m_object = Some 2, m_type = ChildWidget,
       m_className = ''QPushButton'', m_objectName = ''pushButton'', m_classIcon = NullIcon,
       m_managedLayoutType = UnknownLayout\<rparr>,
      \<lparr>m_parent = Some 1, m_object = Some 3, m_type = Object, m_className = ''QButtonGroup'',
       m_objectName = [], m_classIcon = NullIcon,
       m_managedLayoutType = UnknownLayout\<rparr>,
      \<lparr>m_parent = Some 1, m_object = Some 8, m_type = ChildWidget, m_className = ''QMenu'',
       m_objectName = ''menuFile'', m_classIcon = NullIcon, m_managedLayoutType = UnknownLayout\<rparr>,
      \<lparr>m_parent = Some 8, m_object = Some 9, m_type = Action, m_className = ''QAction'',
       m_objectName = ''actionOpen'', m_classIcon = NullIcon, m_managedLayoutType = UnknownLayout\<rparr>,
      \<lparr>m_parent = Some 1, m_object = Some 9, m_type = Action, m_className = ''QAction'',
       m_objectName = ''actionOpen'', m_classIcon = NullIcon,
       m_managedLayoutType = UnknownLayout\<rparr>]"

definition renamedSnapshot :: ObjectModel where
  "renamedSnapshot =
     map (\<lambda>e. if m_object e = Some 9 then e\<lparr>m_objectName := ''actionLoad''\<rparr> else e) demoSnapshot"

definition demoState :: ObjectInspectorModel where
  "demoState =
     (case update 3 demoHost (Some 0) (newObjectInspectorModel demoHost) of
        Inr (res, st) \<Rightarrow> st
      | Inl e \<Rightarrow> newObjectInspectorModel demoHost)"

subsection \<open>Rows after a patch\<close>

text \<open>The items of the row at a path, and a row's items after a list of
  \<open>setItemsDisplayData\<close> calls has been made on it in order.\<close>

definition rowItemsAt :: "nat list \<Rightarrow> TreeRow list \<Rightarrow> StandardItemList option" where
  "rowItemsAt q rs = map_option rowItems (rowAtPath q rs)"

definition applyCallsTo ::
  "(LayoutType \<Rightarrow> QIcon) \<Rightarrow> PatchCall list \<Rightarrow> StandardItemList \<Rightarrow> StandardItemList" where
  "applyCallsTo icons calls items =
     fold (\<lambda>c it. setItemsDisplayData (patchEntry c) icons (patchMask c) it) calls items"

text \<open>The same form after its main container became a container with a grid layout and a
  class icon, and the snapshot of that form.\<close>

definition laidOutHost :: Host where
  "laidOutHost =
     demoHost\<lparr>widgetDataBaseItem :=
                 (\<lambda>x. if x = 1
                      then Some \<lparr>wdb_icon = Icon 7, wdb_name = ''QWidget'', wdb_isContainer = True\<rparr>
                      else None),
               managedLayoutType := (\<lambda>x. Grid)\<rparr>"

definition laidOutSnapshot :: ObjectModel where
  "laidOutSnapshot =
     map (\<lambda>e. if m_object e = Some 1
              then e\<lparr>m_type := LayoutableContainer, m_classIcon := Icon 7,
                     m_managedLayoutType := Grid\<rparr>
              else e) demoSnapshot"

section \<open>Entries: identity and attributes (C8)\<close>

lemma sameIcon_eq: "sameIcon i1 i2 = (i1 = i2)"
  by (cases i1; cases i2) (simp_all add: sameIcon_def isNull_def)

lemma changed_mask_nonzero:
  "ClassNameChanged \<noteq> 0" "ObjectNameChanged \<noteq> 0" "ClassIconChanged \<noteq> 0"
  "TypeChanged \<noteq> 0" "LayoutTypeChanged \<noteq> 0"
  by (simp_all add: ClassNameChanged_def ObjectNameChanged_def ClassIconChanged_def
      TypeChanged_def LayoutTypeChanged_def)

lemma compare_zero_iff:
  "compare a b = 0 \<longleftrightarrow>
     m_className a = m_className b \<and> m_objectName a = m_objectName b \<and>
     m_classIcon a = m_classIcon b \<and> m_type a = m_type b \<and>
     m_managedLayoutType a = m_managedLayoutType b"
  by (simp add: compare_def Let_def sameIcon_eq or_eq_0_iff changed_mask_nonzero)

text \<open>
  C8. Identity and attributes of an entry are separate. \<open>equals\<close> holds exactly when the
  parent reference and the object reference coincide, whatever the class label, the
  instance name, the icon, the type tag and the layout-kind tag are; \<open>compare\<close> returns the
  zero mask exactly when those five display attributes coincide.
\<close>

theorem C8_equals_identity_compare_attributes:
  "equals a b = (m_parent a = m_parent b \<and> m_object a = m_object b)
   \<and> equals (a\<lparr>m_type := t, m_className := cn, m_objectName := n, m_classIcon := ic,
               m_managedLayoutType := lt\<rparr>) b = equals a b
   \<and> equals a (b\<lparr>m_type := t, m_className := cn, m_objectName := n, m_classIcon := ic,
               m_managedLayoutType := lt\<rparr>) = equals a b
   \<and> (compare a b = 0) =
       (m_className a = m_className b \<and> m_objectName a = m_objectName b \<and>
        m_classIcon a = m_classIcon b \<and> m_type a = m_type b \<and>
        m_managedLayoutType a = m_managedLayoutType b)"
  by (simp add: equals_def compare_zero_iff)


section \<open>The snapshot builder: parents before children\<close>


lemma mkObjectData_identity [simp]:
  "m_parent (mkObjectData h ctx parent object) = parent"
  "m_object (mkObjectData h ctx parent object) = Some object"
  by (simp_all add: mkObjectData_def initWidget_def initObject_def defaultObjectData_def Let_def
      split: option.splits)

lemma parentsKnown_mono: "parentsKnown S xs \<Longrightarrow> S \<subseteq> T \<Longrightarrow> parentsKnown T xs"
proof (induction xs arbitrary: S T)
  case Nil
  then show ?case by simp
next
  case (Cons e es)
  from Cons.prems have "parentsKnown (insert (m_object e) S) es" by simp
  moreover from Cons.prems have "insert (m_object e) S \<subseteq> insert (m_object e) T" by auto
  ultimately have "parentsKnown (insert (m_object e) T) es" by (rule Cons.IH)
  with Cons.prems show ?case by auto
qed

lemma parentsKnown_append:
  "parentsKnown S xs \<Longrightarrow> parentsKnown S ys \<Longrightarrow> parentsKnown S (xs @ ys)"
proof (induction xs arbitrary: S)
  case Nil
  then show ?case by simp
next
  case (Cons e es)
  have "parentsKnown (insert (m_object e) S) ys"
    using Cons.prems(2) by (rule parentsKnown_mono) auto
  with Cons show ?case by simp
qed

lemma parentsKnown_nth:
  "parentsKnown S xs \<Longrightarrow> i < length xs \<Longrightarrow>
   m_parent (xs ! i) \<in> S \<or> (\<exists>j<i. m_parent (xs ! i) = m_object (xs ! j))"
proof (induction xs arbitrary: S i)
  case Nil
  then show ?case by simp
next
  case (Cons e es)
  show ?case
  proof (cases i)
    case 0
    with Cons.prems show ?thesis by simp
  next
    case (Suc k)
    with Cons.prems have "k < length es" and "parentsKnown (insert (m_object e) S) es" by simp_all
    from Cons.IH[OF this(2) this(1)]
    have "m_parent (es ! k) \<in> insert (m_object e) S \<or> (\<exists>j<k. m_parent (es ! k) = m_object (es ! j))" .
    then show ?thesis
    proof (elim disjE)
      assume "m_parent (es ! k) \<in> insert (m_object e) S"
      then show ?thesis using Suc by (auto intro: exI[of _ 0])
    next
      assume "\<exists>j<k. m_parent (es ! k) = m_object (es ! j)"
      then obtain j where "j < k" "m_parent (es ! k) = m_object (es ! j)" by blast
      then show ?thesis using Suc by (auto intro: exI[of _ "Suc j"])
    qed
  qed
qed

lemma pagesLoop_parents:
  "addsSegments par rec \<Longrightarrow> pagesLoop rec pages m = Inr r \<Longrightarrow>
   \<exists>seg. r = m @ seg \<and> parentsKnown {par} seg"
proof (induction pages arbitrary: m)
  case Nil
  then show ?case by simp
next
  case (Cons page pages)
  from Cons.prems(2) obtain p m' where p: "page = Some p" and m': "rec p m = Inr m'"
    and rest: "pagesLoop rec pages m' = Inr r"
    by (auto split: option.splits sum.splits)
  from Cons.prems(1) m' obtain s1 where s1: "m' = m @ s1" "parentsKnown {par} s1"
    unfolding addsSegments_def by blast
  from Cons.IH[OF Cons.prems(1) rest] obtain s2 where s2: "r = m' @ s2" "parentsKnown {par} s2"
    by blast
  from s1 s2 have "r = m @ (s1 @ s2)" "parentsKnown {par} (s1 @ s2)"
    by (simp_all add: parentsKnown_append)
  then show ?case by blast
qed

lemma buttonGroupsLoop_parents:
  "addsSegments par rec \<Longrightarrow> buttonGroupsLoop rec groups m = Inr r \<Longrightarrow>
   \<exists>seg. r = m @ seg \<and> parentsKnown {par} seg"
proof (induction groups arbitrary: m)
  case Nil
  then show ?case by simp
next
  case (Cons g groups)
  from Cons.prems(2) obtain m' where m': "rec g m = Inr m'"
    and rest: "buttonGroupsLoop rec groups m' = Inr r"
    by (auto split: sum.splits)
  from Cons.prems(1) m' obtain s1 where s1: "m' = m @ s1" "parentsKnown {par} s1"
    unfolding addsSegments_def by blast
  from Cons.IH[OF Cons.prems(1) rest] obtain s2 where s2: "r = m' @ s2" "parentsKnown {par} s2"
    by blast
  from s1 s2 have "r = m @ (s1 @ s2)" "parentsKnown {par} (s1 @ s2)"
    by (simp_all add: parentsKnown_append)
  then show ?case by blast
qed

lemma actionsLoop_parents:
  "addsSegments par rec \<Longrightarrow> actionsLoop h rec as m = Inr r \<Longrightarrow>
   \<exists>seg. r = m @ seg \<and> parentsKnown {par} seg"
proof (induction as arbitrary: m)
  case Nil
  then show ?case by simp
next
  case (Cons a as)
  show ?case
  proof (cases "metaDataBaseItem h a")
    case False
    with Cons show ?thesis by simp
  next
    case True
    define c where "c = (case actionMenu h a of Some menu \<Rightarrow> menu | None \<Rightarrow> a)"
    from Cons.prems(2) True obtain m' where m': "rec c m = Inr m'"
      and rest: "actionsLoop h rec as m' = Inr r"
      by (auto simp: c_def Let_def split: sum.splits)
    from Cons.prems(1) m' obtain s1 where s1: "m' = m @ s1" "parentsKnown {par} s1"
      unfolding addsSegments_def by blast
    from Cons.IH[OF Cons.prems(1) rest] obtain s2 where s2: "r = m' @ s2" "parentsKnown {par} s2"
      by blast
    from s1 s2 have "r = m @ (s1 @ s2)" "parentsKnown {par} (s1 @ s2)"
      by (simp_all add: parentsKnown_append)
    then show ?thesis by blast
  qed
qed

lemma childrenLoop_parents:
  "addsSegments par rec \<Longrightarrow> childrenLoop h fwi ext rec cs bgs m = Inr (bgs', r) \<Longrightarrow>
   \<exists>seg. r = m @ seg \<and> parentsKnown {par} seg"
proof (induction cs arbitrary: m bgs)
  case Nil
  then show ?case by simp
next
  case (Cons c cs)
  show ?case
  proof (cases "isWidgetType h c \<and> \<not> ext \<and> isManaged h fwi c")
    case True
    from Cons.prems(2) True obtain m' where m': "rec c m = Inr m'"
      and rest: "childrenLoop h fwi ext rec cs bgs m' = Inr (bgs', r)"
      by (auto split: sum.splits)
    from Cons.prems(1) m' obtain s1 where s1: "m' = m @ s1" "parentsKnown {par} s1"
      unfolding addsSegments_def by blast
    from Cons.IH[OF Cons.prems(1) rest] obtain s2 where s2: "r = m' @ s2" "parentsKnown {par} s2"
      by blast
    from s1 s2 have "r = m @ (s1 @ s2)" "parentsKnown {par} (s1 @ s2)"
      by (simp_all add: parentsKnown_append)
    then show ?thesis by blast
  next
    case False
    then obtain bgs2 where "childrenLoop h fwi ext rec cs bgs2 m = Inr (bgs', r)"
      using Cons.prems(2) by (auto split: if_splits)
    from Cons.IH[OF Cons.prems(1) this] show ?thesis .
  qed
qed

lemma createModelRecursion_parents:
  "createModelRecursion fuel h fwi ctx parent object model = Inr r \<Longrightarrow>
   \<exists>rest. r = model @ mkObjectData h ctx parent object # rest \<and> parentsKnown {Some object} rest"
proof (induction fuel arbitrary: parent object model r)
  case 0
  then show ?case by simp
next
  case (Suc fuel)
  define rec where "rec = (\<lambda>child m. createModelRecursion fuel h fwi ctx (Some object) child m)"
  define entry where "entry = mkObjectData h ctx parent object"
  have seg: "addsSegments (Some object) rec"
    unfolding addsSegments_def
  proof (intro allI impI)
    fix c m r' assume "rec c m = Inr r'"
    then obtain rest where r': "r' = m @ mkObjectData h ctx (Some object) c # rest"
      and pk: "parentsKnown {Some c} rest"
      unfolding rec_def using Suc.IH by blast
    have "parentsKnown {Some object} (mkObjectData h ctx (Some object) c # rest)"
      using pk by (auto elim: parentsKnown_mono)
    with r' show "\<exists>seg. r' = m @ seg \<and> parentsKnown {Some object} seg" by blast
  qed
  define A where "A = (if m_type entry = ExtensionContainer then
           (case containerExtension h object of None \<Rightarrow> Inl AssertionFailed
            | Some pages \<Rightarrow> pagesLoop rec pages (model @ [entry]))
          else Inr (model @ [entry]))"
  define B where "B = (\<lambda>model2. if children h object \<noteq> [] then
               (case childrenLoop h fwi (m_type entry = ExtensionContainer) rec (children h object) [] model2 of
                  Inl e \<Rightarrow> Inl e
                | Inr (buttonGroups, model3) \<Rightarrow>
                    (if buttonGroups \<noteq> [] then buttonGroupsLoop rec buttonGroups model3
                     else Inr model3))
             else Inr model2)"
  define C where "C = (\<lambda>model4. if isWidgetType h object then actionsLoop h rec (widgetActions h object) model4
              else Inr model4)"
  have unf: "createModelRecursion (Suc fuel) h fwi ctx parent object model =
     (case A of Inl e \<Rightarrow> Inl e | Inr model2 \<Rightarrow>
        (case B model2 of Inl e \<Rightarrow> Inl e | Inr model4 \<Rightarrow> C model4))"
    unfolding A_def B_def C_def rec_def entry_def createModelRecursion.simps Let_def
    by (rule refl)
  from Suc.prems obtain model2 where a: "A = Inr model2"
    unfolding unf by (cases A) auto
  with Suc.prems obtain model4 where b: "B model2 = Inr model4"
    unfolding unf by (cases "B model2") auto
  with a Suc.prems have c: "C model4 = Inr r"
    unfolding unf by simp
  note p1 = a[unfolded A_def] and p2 = b[unfolded B_def] and p3 = c[unfolded C_def]
  have "\<exists>s1. model2 = (model @ [entry]) @ s1 \<and> parentsKnown {Some object} s1"
  proof (cases "m_type entry = ExtensionContainer")
    case False
    with p1 have "model2 = (model @ [entry]) @ []" by simp
    then show ?thesis by (intro exI[of _ "[]"]) simp
  next
    case True
    with p1 obtain pages where "pagesLoop rec pages (model @ [entry]) = Inr model2"
      by (cases "containerExtension h object") auto
    from pagesLoop_parents[OF seg this] show ?thesis .
  qed
  then obtain s1 where s1: "model2 = (model @ [entry]) @ s1" "parentsKnown {Some object} s1"
    by blast
  from p2 obtain s2 where s2: "model4 = model2 @ s2" "parentsKnown {Some object} s2"
  proof (cases "children h object \<noteq> []")
    case False
    with p2 have "model4 = model2 @ []" by simp
    then show ?thesis using that by simp
  next
    case True
    with p2 obtain bgs model3 where
      c: "childrenLoop h fwi (m_type entry = ExtensionContainer) rec (children h object) [] model2 = Inr (bgs, model3)"
      and b: "(if bgs \<noteq> [] then buttonGroupsLoop rec bgs model3 else Inr model3) = Inr model4"
      by (auto split: sum.splits)
    from childrenLoop_parents[OF seg c] obtain sa where sa: "model3 = model2 @ sa" "parentsKnown {Some object} sa"
      by blast
    have "\<exists>sb. model4 = model3 @ sb \<and> parentsKnown {Some object} sb"
    proof (cases "bgs \<noteq> []")
      case False
      with b have "model4 = model3 @ []" by simp
      then show ?thesis by (intro exI[of _ "[]"]) simp
    next
      case True
      with b have "buttonGroupsLoop rec bgs model3 = Inr model4" by simp
      from buttonGroupsLoop_parents[OF seg this] show ?thesis .
    qed
    then obtain sb where sb: "model4 = model3 @ sb" "parentsKnown {Some object} sb"
      by blast
    from sa sb have "model4 = model2 @ (sa @ sb)" "parentsKnown {Some object} (sa @ sb)"
      by (simp_all add: parentsKnown_append)
    then show ?thesis using that by blast
  qed
  have "\<exists>s3. r = model4 @ s3 \<and> parentsKnown {Some object} s3"
  proof (cases "isWidgetType h object")
    case False
    with p3 have "r = model4 @ []" by simp
    then show ?thesis by (intro exI[of _ "[]"]) simp
  next
    case True
    with p3 have "actionsLoop h rec (widgetActions h object) model4 = Inr r" by simp
    from actionsLoop_parents[OF seg this] show ?thesis .
  qed
  then obtain s3 where s3: "r = model4 @ s3" "parentsKnown {Some object} s3"
    by blast
  from s1 s2 s3 have "r = model @ entry # (s1 @ s2 @ s3)"
    and "parentsKnown {Some object} (s1 @ s2 @ s3)"
    by (simp_all add: parentsKnown_append)
  then show ?case unfolding entry_def by blast
qed


section \<open>The presentation tree: appending and writing rows\<close>


lemma rowAtPath_Some_nonempty: "rowAtPath p rs = Some r \<Longrightarrow> p \<noteq> []"
  by (cases p) auto

lemma rowAtPath_append_items:
  "rowAtPath q rs = Some r \<Longrightarrow>
   \<exists>r'. rowAtPath q (appendRowAt p new rs) = Some r' \<and> rowItems r' = rowItems r"
proof (induction q arbitrary: p rs r)
  case Nil
  then show ?case by simp
next
  case (Cons i q)
  from Cons.prems have i: "i < length rs" by (simp split: if_splits)
  show ?case
  proof (cases p)
    case Nil
    with Cons.prems i show ?thesis by (auto simp: nth_append split: if_splits)
  next
    case (Cons j p')
    show ?thesis
    proof (cases "j < length rs \<and> j = i")
      case False
      with Cons Cons.prems i show ?thesis by (auto split: if_splits)
    next
      case True
      show ?thesis
      proof (cases "q = []")
        case True
        with \<open>j < length rs \<and> j = i\<close> Cons Cons.prems i show ?thesis by simp
      next
        case False
        with Cons.prems i have "rowAtPath q (childRows (rs ! i)) = Some r" by simp
        from Cons.IH[OF this, of p'] obtain r' where
          "rowAtPath q (appendRowAt p' new (childRows (rs ! i))) = Some r'" "rowItems r' = rowItems r"
          by blast
        with \<open>j < length rs \<and> j = i\<close> Cons False i show ?thesis by simp
      qed
    qed
  qed
qed

lemma rowAtPath_append_new:
  "rowAtPath p rs = Some r \<Longrightarrow>
   rowAtPath (p @ [length (childRows r)]) (appendRowAt p new rs) = Some new"
proof (induction p arbitrary: rs)
  case Nil
  then show ?case by simp
next
  case (Cons i p)
  from Cons.prems have i: "i < length rs" by (simp split: if_splits)
  show ?case
  proof (cases "p = []")
    case True
    with Cons.prems i have "r = rs ! i" by simp
    with True i show ?thesis by (simp add: nth_append)
  next
    case False
    with Cons.prems i have "rowAtPath p (childRows (rs ! i)) = Some r" by simp
    from Cons.IH[OF this] False i show ?thesis by simp
  qed
qed

lemma rowAtPath_fresh:
  "rowAtPath p rs = Some r \<Longrightarrow> rowAtPath (p @ [length (childRows r)]) rs = None"
proof (induction p arbitrary: rs)
  case Nil
  then show ?case by simp
next
  case (Cons i p)
  from Cons.prems have i: "i < length rs" by (simp split: if_splits)
  show ?case
  proof (cases "p = []")
    case True
    with Cons.prems i have "r = rs ! i" by simp
    with True i show ?thesis by simp
  next
    case False
    with Cons.prems i have "rowAtPath p (childRows (rs ! i)) = Some r" by simp
    from Cons.IH[OF this] False i show ?thesis by simp
  qed
qed

lemma appendRowAt_length: "p \<noteq> [] \<Longrightarrow> length (appendRowAt p new rs) = length rs"
  by (cases p) auto

lemma countAllRows_update:
  "i < length rs \<Longrightarrow>
   countAllRows (rs[i := x]) + countRows (rs ! i) = countAllRows rs + countRows x"
proof (induction rs arbitrary: i)
  case Nil
  then show ?case by simp
next
  case (Cons a rs)
  show ?case
  proof (cases i)
    case 0
    then show ?thesis by (simp add: countAllRows_def)
  next
    case (Suc k)
    with Cons.prems have "k < length rs" by simp
    from Cons.IH[OF this] Suc show ?thesis by (simp add: countAllRows_def)
  qed
qed

lemma countRows_unfold: "countRows r = Suc (countAllRows (childRows r))"
  by (cases r) (simp add: countAllRows_def)

lemma countAllRows_append:
  "rowAtPath p rs = Some r \<Longrightarrow>
   countAllRows (appendRowAt p new rs) = countAllRows rs + countRows new"
proof (induction p arbitrary: rs)
  case Nil
  then show ?case by simp
next
  case (Cons i p)
  from Cons.prems have i: "i < length rs" by (simp split: if_splits)
  have kids: "countAllRows (appendRowAt p new (childRows (rs ! i)))
              = countAllRows (childRows (rs ! i)) + countRows new"
  proof (cases "p = []")
    case True
    then show ?thesis by (simp add: countAllRows_def)
  next
    case False
    with Cons.prems i have "rowAtPath p (childRows (rs ! i)) = Some r" by simp
    from Cons.IH[OF this] show ?thesis .
  qed
  define x where "x = TreeRow (rowItems (rs ! i)) (appendRowAt p new (childRows (rs ! i)))"
  have "countRows x = countRows (rs ! i) + countRows new"
    using kids by (simp add: x_def countRows_unfold[of "rs ! i"] countAllRows_def)
  with countAllRows_update[OF i, of x] have "countAllRows (rs[i := x]) = countAllRows rs + countRows new"
    by simp
  with i show ?case by (simp add: x_def)
qed

lemma rowAtPath_updateRowAt_valid:
  "(rowAtPath q (updateRowAt p f rs) = None) = (rowAtPath q rs = None)"
proof (induction q arbitrary: p rs)
  case Nil
  then show ?case by simp
next
  case (Cons i q)
  show ?case
  proof (cases p)
    case Nil
    then show ?thesis by simp
  next
    case (Cons j p')
    show ?thesis
    proof (cases "j < length rs")
      case False
      with Cons show ?thesis by simp
    next
      case True
      show ?thesis
      proof (cases "i = j")
        case False
        with True Cons show ?thesis by simp
      next
        case ij: True
        show ?thesis
        proof (cases "q = []")
          case True
          with ij \<open>j < length rs\<close> Cons show ?thesis by simp
        next
          case False
          show ?thesis
          proof (cases "p' = []")
            case True
            with False ij \<open>j < length rs\<close> Cons show ?thesis by simp
          next
            case p': False
            from Cons.IH[of p' "childRows (rs ! j)"] False p' ij \<open>j < length rs\<close> Cons
            show ?thesis by simp
          qed
        qed
      qed
    qed
  qed
qed

lemma shapeOf_updateRowAt: "map shapeOf (updateRowAt p f rs) = map shapeOf rs"
proof (induction p arbitrary: rs)
  case Nil
  then show ?case by simp
next
  case (Cons i p)
  show ?case
  proof (cases "i < length rs")
    case False
    then show ?thesis by simp
  next
    case True
    have same: "shapeOf (rs ! i) = Shape (map shapeOf (childRows (rs ! i)))"
      by (cases "rs ! i") simp
    show ?thesis
    proof (cases "p = []")
      case True
      with \<open>i < length rs\<close> same show ?thesis by (simp add: map_update list_update_same_conv)
    next
      case False
      with \<open>i < length rs\<close> same Cons.IH[of "childRows (rs ! i)"] show ?thesis
        by (simp add: map_update list_update_same_conv)
    qed
  qed
qed


section \<open>Rebuilding the rows from a snapshot\<close>


lemma multiMapValue_Some_mem:
  "multiMapValue mm key = Some p \<Longrightarrow> (key, p) \<in> set mm"
proof -
  assume a: "multiMapValue mm key = Some p"
  then obtain vs where "multiMapValues mm key = p # vs"
    by (auto simp: multiMapValue_def split: list.splits)
  then have "p \<in> set (map snd (filter (\<lambda>kv. fst kv = key) mm))"
    by (simp add: multiMapValues_def)
  then show ?thesis by auto
qed

lemma multiMapValue_key:
  "key \<in> fst ` set mm \<Longrightarrow> \<exists>p. multiMapValue mm key = Some p"
proof -
  assume "key \<in> fst ` set mm"
  then have "filter (\<lambda>kv. fst kv = key) mm \<noteq> []"
    by (auto simp: filter_empty_conv)
  then show ?thesis
    by (cases "filter (\<lambda>kv. fst kv = key) mm") (auto simp: multiMapValue_def multiMapValues_def)
qed

lemma countRows_leaf: "countRows (TreeRow row []) = 1"
  by simp

lemma rowsHold_valid:
  "rowsHold icons entries mm rows \<Longrightarrow> kp \<in> set mm \<Longrightarrow> rowAtPath (snd kp) rows \<noteq> None"
proof -
  assume h: "rowsHold icons entries mm rows" and kp: "kp \<in> set mm"
  from kp have "kp \<in> set (rev mm)" by simp
  then obtain i where i: "i < length (rev mm)" "rev mm ! i = kp"
    by (auto simp: in_set_conv_nth simp del: set_rev)
  from h have "list_all2
       (\<lambda>e kp. fst kp = m_object e \<and>
          (case rowAtPath (snd kp) rows of
             None \<Rightarrow> False
           | Some r \<Rightarrow> rowItems r = setItems e icons (createModelRow (m_object e))))
       entries (rev mm)" by (simp add: rowsHold_def)
  from list_all2_nthD2[OF this i(1)] i(2) show ?thesis by (auto split: option.splits)
qed

lemma rowsHold_append:
  assumes h: "rowsHold icons entries mm rows"
    and p: "rowAtPath parentIndex rows = Some parentItem"
  shows "rowsHold icons (entries @ [it])
           ((m_object it, parentIndex @ [length (childRows parentItem)]) # mm)
           (appendRowAt parentIndex
              (TreeRow (setItems it icons (createModelRow (m_object it))) []) rows)"
proof -
  let ?new = "TreeRow (setItems it icons (createModelRow (m_object it))) []"
  let ?rows' = "appendRowAt parentIndex ?new rows"
  let ?P = "\<lambda>rs e kp. fst kp = m_object e \<and>
          (case rowAtPath (snd kp) rs of
             None \<Rightarrow> False
           | Some r \<Rightarrow> rowItems r = setItems e icons (createModelRow (m_object e)))"
  from h have old: "list_all2 (?P rows) entries (rev mm)" by (simp add: rowsHold_def)
  have keep: "?P rows e kp \<Longrightarrow> ?P ?rows' e kp" for e kp
  proof -
    assume a: "?P rows e kp"
    then obtain r where r: "rowAtPath (snd kp) rows = Some r"
      "rowItems r = setItems e icons (createModelRow (m_object e))"
      by (auto split: option.splits)
    from rowAtPath_append_items[OF r(1), of parentIndex ?new] obtain r' where
      "rowAtPath (snd kp) ?rows' = Some r'" "rowItems r' = rowItems r" by blast
    with a r show "?P ?rows' e kp" by simp
  qed
  from old have old': "list_all2 (?P ?rows') entries (rev mm)"
    by (rule list_all2_mono) (rule keep)
  have new: "?P ?rows' it (m_object it, parentIndex @ [length (childRows parentItem)])"
    using rowAtPath_append_new[OF p, of ?new] by simp
  from old' new have "list_all2 (?P ?rows') (entries @ [it])
      (rev mm @ [(m_object it, parentIndex @ [length (childRows parentItem)])])"
    by (intro list_all2_appendI) simp_all
  then show ?thesis by (simp add: rowsHold_def)
qed

lemma exactlyRebuilt_append:
  assumes h: "exactlyRebuilt icons entries mm rows"
    and p: "rowAtPath parentIndex rows = Some parentItem"
  shows "exactlyRebuilt icons (entries @ [it])
           ((m_object it, parentIndex @ [length (childRows parentItem)]) # mm)
           (appendRowAt parentIndex
              (TreeRow (setItems it icons (createModelRow (m_object it))) []) rows)"
proof -
  from h have rh: "rowsHold icons entries mm rows" and d: "distinct (map snd mm)"
    and c: "countAllRows rows = length entries"
    by (simp_all add: exactlyRebuilt_def)
  have fresh: "parentIndex @ [length (childRows parentItem)] \<notin> set (map snd mm)"
  proof
    assume "parentIndex @ [length (childRows parentItem)] \<in> set (map snd mm)"
    then obtain kp where "kp \<in> set mm" "snd kp = parentIndex @ [length (childRows parentItem)]"
      by auto
    with rowsHold_valid[OF rh this(1)] rowAtPath_fresh[OF p] show False by simp
  qed
  from rowsHold_append[OF rh p] d fresh c countAllRows_append[OF p]
  show ?thesis by (simp add: exactlyRebuilt_def)
qed

lemma rebuildLoop_exact:
  "rebuildLoop st its = Inr st' \<Longrightarrow>
   exactlyRebuilt (m_icons st) entries (m_objectIndexMultiMap st) (modelRows st) \<Longrightarrow>
   exactlyRebuilt (m_icons st) (entries @ its) (m_objectIndexMultiMap st') (modelRows st')
   \<and> m_icons st' = m_icons st \<and> m_model st' = m_model st
   \<and> m_formWindow st' = m_formWindow st
   \<and> length (modelRows st') = length (modelRows st)"
proof (induction its arbitrary: st entries)
  case Nil
  then show ?case by simp
next
  case (Cons it its)
  from Cons.prems(1) obtain parentIndex where
    v: "multiMapValue (m_objectIndexMultiMap st) (m_parent it) = Some parentIndex"
    by (auto split: option.splits)
  with Cons.prems(1) obtain parentItem where
    p: "rowAtPath parentIndex (modelRows st) = Some parentItem"
    by (auto split: option.splits)
  define st1 where "st1 = st\<lparr>modelRows := appendRowAt parentIndex
        (TreeRow (setItems it (m_icons st) (createModelRow (m_object it))) []) (modelRows st),
      m_objectIndexMultiMap := multiMapInsert (m_object it)
        (parentIndex @ [length (childRows parentItem)]) (m_objectIndexMultiMap st)\<rparr>"
  from Cons.prems(1) v p have loop: "rebuildLoop st1 its = Inr st'"
    by (simp add: st1_def Let_def)
  have ex1: "exactlyRebuilt (m_icons st1) (entries @ [it]) (m_objectIndexMultiMap st1) (modelRows st1)"
    using exactlyRebuilt_append[OF Cons.prems(2) p, of it]
    by (simp add: st1_def multiMapInsert_def)
  from rowAtPath_Some_nonempty[OF p] have len: "length (modelRows st1) = length (modelRows st)"
    by (simp add: st1_def appendRowAt_length)
  from Cons.IH[OF loop ex1] len show ?case by (simp add: st1_def)
qed

lemma rebuildLoop_succeeds:
  "parentsKnown (fst ` set (m_objectIndexMultiMap st)) its \<Longrightarrow>
   list_all (\<lambda>kp. rowAtPath (snd kp) (modelRows st) \<noteq> None) (m_objectIndexMultiMap st) \<Longrightarrow>
   \<exists>st'. rebuildLoop st its = Inr st'"
proof (induction its arbitrary: st)
  case Nil
  then show ?case by simp
next
  case (Cons it its)
  from Cons.prems(1) have par: "m_parent it \<in> fst ` set (m_objectIndexMultiMap st)"
    and rest: "parentsKnown (insert (m_object it) (fst ` set (m_objectIndexMultiMap st))) its"
    by simp_all
  from multiMapValue_key[OF par] obtain parentIndex where
    v: "multiMapValue (m_objectIndexMultiMap st) (m_parent it) = Some parentIndex" by blast
  from multiMapValue_Some_mem[OF v] Cons.prems(2)
  have "rowAtPath parentIndex (modelRows st) \<noteq> None"
    by (auto simp: list_all_iff)
  then obtain parentItem where p: "rowAtPath parentIndex (modelRows st) = Some parentItem"
    by blast
  let ?new = "TreeRow (setItems it (m_icons st) (createModelRow (m_object it))) []"
  define st1 where "st1 = st\<lparr>modelRows := appendRowAt parentIndex ?new (modelRows st),
      m_objectIndexMultiMap := multiMapInsert (m_object it)
        (parentIndex @ [length (childRows parentItem)]) (m_objectIndexMultiMap st)\<rparr>"
  have step: "rebuildLoop st (it # its) = rebuildLoop st1 its"
    using v p by (simp add: st1_def Let_def)
  have keys: "parentsKnown (fst ` set (m_objectIndexMultiMap st1)) its"
    using rest by (simp add: st1_def multiMapInsert_def)
  have old: "rowAtPath (snd kp) (modelRows st1) \<noteq> None" if "kp \<in> set (m_objectIndexMultiMap st)" for kp
  proof -
    from that Cons.prems(2) obtain r where "rowAtPath (snd kp) (modelRows st) = Some r"
      by (auto simp: list_all_iff)
    from rowAtPath_append_items[OF this, of parentIndex ?new] show ?thesis
      by (auto simp: st1_def)
  qed
  have valid: "list_all (\<lambda>kp. rowAtPath (snd kp) (modelRows st1) \<noteq> None) (m_objectIndexMultiMap st1)"
    unfolding list_all_iff
  proof
    fix kp assume "kp \<in> set (m_objectIndexMultiMap st1)"
    then consider "kp = (m_object it, parentIndex @ [length (childRows parentItem)])"
      | "kp \<in> set (m_objectIndexMultiMap st)"
      by (auto simp: st1_def multiMapInsert_def)
    then show "rowAtPath (snd kp) (modelRows st1) \<noteq> None"
    proof cases
      case 1
      with rowAtPath_append_new[OF p, of ?new] show ?thesis by (simp add: st1_def)
    next
      case 2
      then show ?thesis by (rule old)
    qed
  qed
  from Cons.IH[OF keys valid] step show ?case by simp
qed

lemma removeRow0_empty: "length rs \<le> 1 \<Longrightarrow> removeRow0 rs = []"
  by (cases rs) (auto simp: removeRow0_def)

lemma rebuild_exact:
  assumes r: "rebuild st newModel = Inr st'" and top: "length (modelRows st) \<le> 1"
  shows "exactlyRebuilt (m_icons st) newModel (m_objectIndexMultiMap st') (modelRows st')
   \<and> m_icons st' = m_icons st \<and> m_formWindow st' = m_formWindow st
   \<and> length (modelRows st') \<le> 1"
proof (cases newModel)
  case Nil
  with r top have "st' = st\<lparr>m_objectIndexMultiMap := [], m_model := [], modelRows := []\<rparr>"
    by (simp add: rebuild_def clearItems_def removeRow0_empty)
  with Nil show ?thesis
    by (simp add: exactlyRebuilt_def rowsHold_def countAllRows_def)
next
  case (Cons it its)
  define st1 where "st1 = (clearItems st)\<lparr>modelRows := appendRowAt []
        (TreeRow (setItems it (m_icons (clearItems st)) (createModelRow (m_object it))) [])
        (modelRows (clearItems st)),
      m_objectIndexMultiMap := multiMapInsert (m_object it) [length (modelRows (clearItems st))]
        (m_objectIndexMultiMap (clearItems st))\<rparr>"
  from r Cons have loop: "rebuildLoop st1 its = Inr st'"
    by (simp add: rebuild_def Let_def st1_def)
  have rows1: "modelRows st1 = [TreeRow (setItems it (m_icons st) (createModelRow (m_object it))) []]"
    and mm1: "m_objectIndexMultiMap st1 = [(m_object it, [0])]"
    and ic1: "m_icons st1 = m_icons st" and fw1: "m_formWindow st1 = m_formWindow st"
    using top by (simp_all add: st1_def clearItems_def removeRow0_empty multiMapInsert_def)
  have ex1: "exactlyRebuilt (m_icons st1) [it] (m_objectIndexMultiMap st1) (modelRows st1)"
    by (simp add: rows1 mm1 ic1 exactlyRebuilt_def rowsHold_def countAllRows_def)
  from rebuildLoop_exact[OF loop ex1] Cons rows1 ic1 fw1 show ?thesis by simp
qed

lemma rebuild_succeeds:
  assumes wf: "parentsInPlace newModel"
  shows "\<exists>st'. rebuild st newModel = Inr st'"
proof (cases newModel)
  case Nil
  then show ?thesis by (simp add: rebuild_def)
next
  case (Cons it its)
  define st1 where "st1 = (clearItems st)\<lparr>modelRows := appendRowAt []
        (TreeRow (setItems it (m_icons (clearItems st)) (createModelRow (m_object it))) [])
        (modelRows (clearItems st)),
      m_objectIndexMultiMap := multiMapInsert (m_object it) [length (modelRows (clearItems st))]
        (m_objectIndexMultiMap (clearItems st))\<rparr>"
  have unf: "rebuild st newModel = rebuildLoop st1 its"
    using Cons by (simp add: rebuild_def Let_def st1_def)
  have keys: "parentsKnown (fst ` set (m_objectIndexMultiMap st1)) its"
    using wf Cons by (simp add: parentsInPlace_def st1_def clearItems_def multiMapInsert_def)
  have valid: "list_all (\<lambda>kp. rowAtPath (snd kp) (modelRows st1) \<noteq> None) (m_objectIndexMultiMap st1)"
    by (simp add: st1_def clearItems_def multiMapInsert_def nth_append)
  from rebuildLoop_succeeds[OF keys valid] unf show ?thesis by simp
qed


section \<open>Patching rows in place, and the invariant of the model\<close>


lemma updateItemContentsLoop_indexes:
  "set (map patchIndex (snd (updateItemContentsLoop mm changed old new))) \<subseteq> snd ` set mm"
proof (induction mm changed old new rule: updateItemContentsLoop.induct)
  case (1 mm changedObjects entry oldModel newEntry newModel)
  show ?case
  proof (cases "compare entry newEntry \<noteq> 0")
    case False
    with 1 show ?thesis by (simp add: Let_def)
  next
    case True
    show ?thesis
    proof (cases "m_object newEntry \<notin> changedObjects")
      case False
      with True 1 show ?thesis by (simp add: Let_def)
    next
      case new: True
      have "set (multiMapValues mm (m_object newEntry)) \<subseteq> snd ` set mm"
        by (auto simp: multiMapValues_def)
      with True new 1 show ?thesis by (auto simp: Let_def)
    qed
  qed
qed simp_all

lemma updateItemContentsLoop_length:
  "length old = length new \<Longrightarrow>
   length (fst (updateItemContentsLoop mm changed old new)) = length new"
  by (induction mm changed old new rule: updateItemContentsLoop.induct) (simp_all add: Let_def)


lemma applyPatchCalls_succeeds:
  "list_all (\<lambda>c. rowAtPath (patchIndex c) rows \<noteq> None) calls \<Longrightarrow>
   \<exists>rows'. applyPatchCalls icons calls rows = Inr rows'"
proof (induction calls arbitrary: rows)
  case Nil
  then show ?case by simp
next
  case (Cons c cs)
  from Cons.prems obtain r where r: "rowAtPath (patchIndex c) rows = Some r" by auto
  let ?rows1 = "updateRowAt (patchIndex c) (setItemsDisplayData (patchEntry c) icons (patchMask c)) rows"
  from Cons.prems have "list_all (\<lambda>c. rowAtPath (patchIndex c) ?rows1 \<noteq> None) cs"
    by (simp add: rowAtPath_updateRowAt_valid)
  from Cons.IH[OF this] r show ?case by simp
qed

lemma applyPatchCalls_keeps:
  "applyPatchCalls icons calls rows = Inr rows' \<Longrightarrow>
   map shapeOf rows' = map shapeOf rows \<and>
   (\<forall>q. (rowAtPath q rows' = None) = (rowAtPath q rows = None))"
proof (induction calls arbitrary: rows)
  case Nil
  then show ?case by simp
next
  case (Cons c cs)
  let ?rows1 = "updateRowAt (patchIndex c) (setItemsDisplayData (patchEntry c) icons (patchMask c)) rows"
  from Cons.prems have "applyPatchCalls icons cs ?rows1 = Inr rows'"
    by (simp split: option.splits)
  from Cons.IH[OF this] show ?case
    by (simp add: shapeOf_updateRowAt rowAtPath_updateRowAt_valid)
qed

lemma ObjectModel_eq_iff: "ObjectModel_eq xs ys = (identityPairs xs = identityPairs ys)"
  by (induction xs ys rule: ObjectModel_eq.induct) (auto simp: identityPairs_def equals_def)

lemma identityPairs_length: "identityPairs xs = identityPairs ys \<Longrightarrow> length xs = length ys"
  unfolding identityPairs_def by (rule map_eq_imp_length_eq)

lemma updateItemContents_succeeds:
  assumes inv: "modelInvariant st" and len: "length (m_model st) = length newModel"
  shows "\<exists>st'. updateItemContents st newModel = Inr st'
     \<and> map shapeOf (modelRows st') = map shapeOf (modelRows st)
     \<and> m_objectIndexMultiMap st' = m_objectIndexMultiMap st
     \<and> m_formWindow st' = m_formWindow st \<and> m_icons st' = m_icons st
     \<and> modelInvariant st'"
proof -
  define r where "r = updateItemContentsLoop (m_objectIndexMultiMap st) {} (m_model st) newModel"
  have "list_all (\<lambda>c. rowAtPath (patchIndex c) (modelRows st) \<noteq> None) (snd r)"
    unfolding list_all_iff
  proof
    fix c assume "c \<in> set (snd r)"
    then have "patchIndex c \<in> snd ` set (m_objectIndexMultiMap st)"
      using updateItemContentsLoop_indexes[of "m_objectIndexMultiMap st" "{}" "m_model st" newModel]
      by (auto simp: r_def)
    with inv show "rowAtPath (patchIndex c) (modelRows st) \<noteq> None"
      by (auto simp: modelInvariant_def list_all_iff)
  qed
  from applyPatchCalls_succeeds[OF this] obtain rows' where
    a: "applyPatchCalls (m_icons st) (snd r) (modelRows st) = Inr rows'" by blast
  from applyPatchCalls_keeps[OF a] have sh: "map shapeOf rows' = map shapeOf (modelRows st)"
    and v: "\<And>q. (rowAtPath q rows' = None) = (rowAtPath q (modelRows st) = None)" by simp_all
  from sh have "length rows' = length (modelRows st)" by (rule map_eq_imp_length_eq)
  with inv v have "modelInvariant (st\<lparr>m_model := fst r, modelRows := rows'\<rparr>)"
    by (simp add: modelInvariant_def list_all_iff)
  with a sh len show ?thesis
    by (simp add: updateItemContents_def Let_def r_def[symmetric])
qed

lemma clearItems_invariant:
  "modelInvariant st \<Longrightarrow>
   modelRows (clearItems st) = [] \<and> m_objectIndexMultiMap (clearItems st) = []
   \<and> m_model (clearItems st) = []"
  by (simp add: modelInvariant_def clearItems_def removeRow0_empty)

lemma exactlyRebuilt_valid:
  "exactlyRebuilt icons entries mm rows \<Longrightarrow> list_all (\<lambda>kp. rowAtPath (snd kp) rows \<noteq> None) mm"
  unfolding list_all_iff exactlyRebuilt_def using rowsHold_valid by blast



lemma update_noForm:
  "fw = None \<or> (\<exists>f. fw = Some f \<and> mainContainer h f = None) \<Longrightarrow>
   update fuel h fw st = Inr (NoForm, (clearItems st)\<lparr>m_formWindow := None\<rparr>)"
  by (auto simp: update_def)





lemma update_form:
  "mainContainer h f = Some c \<Longrightarrow>
   update fuel h (Some f) st =
     (case createModelRecursion fuel h f
             (mkModelRecursionContext (translate h ''ObjectInspectorModel'' ''separator''))
             None c [] of
        Inl e \<Rightarrow> Inl e
      | Inr newModel \<Rightarrow>
          (if ObjectModel_eq newModel (m_model (st\<lparr>m_formWindow := Some f\<rparr>)) then
             (case updateItemContents (st\<lparr>m_formWindow := Some f\<rparr>) newModel of
                Inl e \<Rightarrow> Inl e
              | Inr st2 \<Rightarrow> Inr (Updated, st2))
           else
             (case rebuild (st\<lparr>m_formWindow := Some f\<rparr>) newModel of
                Inl e \<Rightarrow> Inl e
              | Inr st2 \<Rightarrow> Inr (Rebuilt, st2\<lparr>m_model := newModel\<rparr>))))"
  unfolding update_def Let_def
  by (simp only: option.case prod.case ObjectInspectorModel.select_convs ObjectInspectorModel.update_convs ObjectInspectorModel.surjective)

lemma update_invariant:
  assumes inv: "modelInvariant st" and u: "update fuel h fw st = Inr (r, st')"
  shows "modelInvariant st'"
proof (cases "fw = None \<or> (\<exists>f. fw = Some f \<and> mainContainer h f = None)")
  case True
  from update_noForm[OF this, of fuel st] u
  have "st' = (clearItems st)\<lparr>m_formWindow := None\<rparr>" by simp
  with clearItems_invariant[OF inv] show ?thesis by (simp add: modelInvariant_def)
next
  case False
  then obtain f c where fw: "fw = Some f" and mc: "mainContainer h f = Some c" by auto
  define st1 where "st1 = st\<lparr>m_formWindow := Some f\<rparr>"
  define ctx where "ctx = mkModelRecursionContext (translate h ''ObjectInspectorModel'' ''separator'')"
  from inv have inv1: "modelInvariant st1" by (simp add: st1_def modelInvariant_def)
  note uf = u[unfolded fw update_form[OF mc], folded st1_def ctx_def]
  from uf obtain newModel where
    n: "createModelRecursion fuel h f ctx None c [] = Inr newModel"
    by (cases "createModelRecursion fuel h f ctx None c []") auto
  show ?thesis
  proof (cases "ObjectModel_eq newModel (m_model st1)")
    case True
    with uf n have "(case updateItemContents st1 newModel of Inl e \<Rightarrow> Inl e
        | Inr st2 \<Rightarrow> Inr (Updated, st2)) = Inr (r, st')" by simp
    then have a: "updateItemContents st1 newModel = Inr st'"
      by (cases "updateItemContents st1 newModel") simp_all
    from True have "identityPairs newModel = identityPairs (m_model st1)"
      by (simp add: ObjectModel_eq_iff)
    then have "length (m_model st1) = length newModel"
      by (rule identityPairs_length[symmetric])
    from updateItemContents_succeeds[OF inv1 this] obtain st2 where
      "updateItemContents st1 newModel = Inr st2" "modelInvariant st2" by blast
    with a show ?thesis by simp
  next
    case False
    with uf n have "(case rebuild st1 newModel of Inl e \<Rightarrow> Inl e
        | Inr st2 \<Rightarrow> Inr (Rebuilt, st2\<lparr>m_model := newModel\<rparr>)) = Inr (r, st')" by simp
    then have "\<exists>st2. rebuild st1 newModel = Inr st2 \<and> st' = st2\<lparr>m_model := newModel\<rparr>"
      by (cases "rebuild st1 newModel") simp_all
    then obtain st2 where r2: "rebuild st1 newModel = Inr st2"
      and st': "st' = st2\<lparr>m_model := newModel\<rparr>" by blast
    from inv1 have "length (modelRows st1) \<le> 1" by (simp add: modelInvariant_def)
    from rebuild_exact[OF r2 this]
    have ex: "exactlyRebuilt (m_icons st1) newModel (m_objectIndexMultiMap st2) (modelRows st2)"
      and top: "length (modelRows st2) \<le> 1" by simp_all
    from exactlyRebuilt_valid[OF ex] top show ?thesis
      by (simp add: modelInvariant_def st')
  qed
qed

lemma reachable_invariant: "reachable st \<Longrightarrow> modelInvariant st"
proof (induction rule: reachable.induct)
  case (reachable_new h)
  show ?case by (simp add: modelInvariant_def newObjectInspectorModel_def)
next
  case (reachable_update st fuel h fw r st')
  from update_invariant[OF reachable_update.IH reachable_update.hyps(2)] show ?case .
qed


section \<open>The snapshot builder: what a node recurses into\<close>


lemma visitsEach_Nil [simp]: "visitsEach rec [] subs = (subs = [])"
  by (simp add: visitsEach_def)

lemma visitsEach_Cons:
  "visitsEach rec (t # ts) subs =
     (\<exists>c sub rest. t = Some c \<and> rec c [] = Inr sub \<and> visitsEach rec ts rest \<and> subs = sub # rest)"
  by (auto simp: visitsEach_def list_all2_Cons1 split: option.splits)

lemma visitsEach_append:
  "visitsEach rec (ts @ us) subs =
     (\<exists>as bs. visitsEach rec ts as \<and> visitsEach rec us bs \<and> subs = as @ bs)"
proof
  assume "visitsEach rec (ts @ us) subs"
  then show "\<exists>as bs. visitsEach rec ts as \<and> visitsEach rec us bs \<and> subs = as @ bs"
    unfolding visitsEach_def list_all2_append1 by blast
next
  assume "\<exists>as bs. visitsEach rec ts as \<and> visitsEach rec us bs \<and> subs = as @ bs"
  then obtain as bs where "visitsEach rec ts as" "visitsEach rec us bs" "subs = as @ bs"
    by blast
  then show "visitsEach rec (ts @ us) subs"
    unfolding visitsEach_def by (simp add: list_all2_appendI)
qed

lemma buttonGroupsLoop_visits:
  assumes ap: "appendsSnapshot rec"
  shows "(buttonGroupsLoop rec gs m = Inr r) =
         (\<exists>subs. visitsEach rec (map Some gs) subs \<and> r = m @ concat subs)"
proof (induction gs arbitrary: m)
  case Nil
  show ?case by auto
next
  case (Cons g gs)
  have "(buttonGroupsLoop rec (g # gs) m = Inr r) =
        (\<exists>m'. rec g m = Inr m' \<and> buttonGroupsLoop rec gs m' = Inr r)"
    by (cases "rec g m") auto
  also have "\<dots> = (\<exists>sub. rec g [] = Inr sub \<and> buttonGroupsLoop rec gs (m @ sub) = Inr r)"
    using ap unfolding appendsSnapshot_def by metis
  also have "\<dots> = (\<exists>sub subs. rec g [] = Inr sub \<and> visitsEach rec (map Some gs) subs
                 \<and> r = (m @ sub) @ concat subs)"
    unfolding Cons.IH by blast
  also have "\<dots> = (\<exists>subs. visitsEach rec (map Some (g # gs)) subs \<and> r = m @ concat subs)"
    by (fastforce simp: visitsEach_Cons)
  finally show ?case .
qed

lemma pagesLoop_visits:
  assumes ap: "appendsSnapshot rec"
  shows "(pagesLoop rec pages m = Inr r) =
         (\<exists>subs. visitsEach rec pages subs \<and> r = m @ concat subs)"
proof (induction pages arbitrary: m)
  case Nil
  show ?case by auto
next
  case (Cons page pages)
  show ?case
  proof (cases page)
    case None
    then show ?thesis by (simp add: visitsEach_Cons)
  next
    case (Some g)
    have "(pagesLoop rec (page # pages) m = Inr r) =
          (\<exists>m'. rec g m = Inr m' \<and> pagesLoop rec pages m' = Inr r)"
      using Some by (cases "rec g m") auto
    also have "\<dots> = (\<exists>sub. rec g [] = Inr sub \<and> pagesLoop rec pages (m @ sub) = Inr r)"
      using ap unfolding appendsSnapshot_def by metis
    also have "\<dots> = (\<exists>sub subs. rec g [] = Inr sub \<and> visitsEach rec pages subs
                   \<and> r = (m @ sub) @ concat subs)"
      unfolding Cons.IH by blast
    also have "\<dots> = (\<exists>subs. visitsEach rec (page # pages) subs \<and> r = m @ concat subs)"
      using Some by (fastforce simp: visitsEach_Cons)
    finally show ?thesis .
  qed
qed

lemma actionsLoop_as_visits:
  "actionsLoop h rec as m =
     buttonGroupsLoop rec (map (menuOrAction h) (filter (metaDataBaseItem h) as)) m"
proof (induction as arbitrary: m)
  case Nil
  show ?case by simp
next
  case (Cons a as)
  show ?case
  proof (cases "metaDataBaseItem h a")
    case False
    with Cons show ?thesis by simp
  next
    case True
    with Cons show ?thesis
      by (cases "rec (menuOrAction h a) m") (simp_all add: menuOrAction_def Let_def)
  qed
qed

lemma childrenLoop_as_visits:
  "childrenLoop h fwi ext rec cs bgs m =
     (case buttonGroupsLoop rec
             (filter (\<lambda>c. isWidgetType h c \<and> \<not> ext \<and> isManaged h fwi c) cs) m of
        Inl e \<Rightarrow> Inl e
      | Inr m' \<Rightarrow>
          Inr (bgs @ filter (\<lambda>c. \<not> isWidgetType h c \<and> metaDataBaseItem h c \<and> isQButtonGroup h c) cs,
               m'))"
proof (induction cs arbitrary: bgs m)
  case Nil
  show ?case by simp
next
  case (Cons c cs)
  show ?case
  proof (cases "isWidgetType h c")
    case w: True
    show ?thesis
    proof (cases "\<not> ext \<and> isManaged h fwi c")
      case False
      with w Cons[of bgs m] show ?thesis by (cases ext) (simp_all split: sum.splits)
    next
      case vis: True
      show ?thesis
      proof (cases "rec c m")
        case (Inl e)
        with w vis show ?thesis by simp
      next
        case (Inr m')
        with w vis Cons[of bgs m'] show ?thesis by (simp split: sum.splits)
      qed
    qed
  next
    case False
    with Cons[of bgs m] Cons[of "bgs @ [c]" m] show ?thesis by (simp split: sum.splits)
  qed
qed

lemma mkObjectData_extension:
  "m_type (mkObjectData h ctx parent object) = ExtensionContainer \<Longrightarrow>
   containerExtension h object \<noteq> None"
  by (auto simp: mkObjectData_def initWidget_def initObject_def defaultObjectData_def Let_def
      split: option.splits if_splits)


lemma visits_compose:
  assumes F: "\<And>m r. (F m = Inr r) = (\<exists>subs. visitsEach rec ts subs \<and> r = m @ concat subs)"
    and G: "\<And>m r. (G m = Inr r) = (\<exists>subs. visitsEach rec us subs \<and> r = m @ concat subs)"
  shows "((case F m of Inl e \<Rightarrow> Inl e | Inr m' \<Rightarrow> G m') = Inr r) =
         (\<exists>subs. visitsEach rec (ts @ us) subs \<and> r = m @ concat subs)"
proof -
  have "((case F m of Inl e \<Rightarrow> Inl e | Inr m' \<Rightarrow> G m') = Inr r) =
        (\<exists>m'. F m = Inr m' \<and> G m' = Inr r)"
    by (cases "F m") auto
  also have "\<dots> = (\<exists>sa sb. visitsEach rec ts sa \<and> visitsEach rec us sb
                  \<and> r = (m @ concat sa) @ concat sb)"
    unfolding F G by blast
  also have "\<dots> = (\<exists>subs. visitsEach rec (ts @ us) subs \<and> r = m @ concat subs)"
    unfolding visitsEach_append by fastforce
  finally show ?thesis .
qed

lemma createModelRecursion_Suc_visits:
  assumes ap: "appendsSnapshot (createModelRecursion fuel h fwi ctx (Some object))"
  shows "(createModelRecursion (Suc fuel) h fwi ctx parent object m = Inr r) =
    (\<exists>subs. visitsEach (createModelRecursion fuel h fwi ctx (Some object))
              (recursionTargets h fwi object (m_type (mkObjectData h ctx parent object))) subs
           \<and> r = m @ mkObjectData h ctx parent object # concat subs)"
proof -
  define rec where "rec = createModelRecursion fuel h fwi ctx (Some object)"
  define entry where "entry = mkObjectData h ctx parent object"
  define ext where "ext = (m_type entry = ExtensionContainer)"
  define tA where "tA = (if ext then (case containerExtension h object of Some pages \<Rightarrow> pages | None \<Rightarrow> [])
                         else [])"
  define widgets where "widgets = filter (\<lambda>c. isWidgetType h c \<and> \<not> ext \<and> isManaged h fwi c) (children h object)"
  define bgs where "bgs = filter (\<lambda>c. \<not> isWidgetType h c \<and> metaDataBaseItem h c \<and> isQButtonGroup h c) (children h object)"
  define acts where "acts = (if isWidgetType h object
       then map (menuOrAction h) (filter (metaDataBaseItem h) (widgetActions h object)) else [])"
  define A where "A = (\<lambda>model1. if ext then
           (case containerExtension h object of None \<Rightarrow> Inl AssertionFailed
            | Some pages \<Rightarrow> pagesLoop rec pages model1)
          else Inr model1)"
  define B where "B = (\<lambda>model2. if children h object \<noteq> [] then
               (case childrenLoop h fwi ext rec (children h object) [] model2 of
                  Inl e \<Rightarrow> Inl e
                | Inr (buttonGroups, model3) \<Rightarrow>
                    (if buttonGroups \<noteq> [] then buttonGroupsLoop rec buttonGroups model3
                     else Inr model3))
             else Inr model2)"
  define C where "C = (\<lambda>model4. if isWidgetType h object then actionsLoop h rec (widgetActions h object) model4
              else Inr model4)"
  have apr: "appendsSnapshot rec" using ap by (simp add: rec_def)
  have unf: "createModelRecursion (Suc fuel) h fwi ctx parent object m =
     (case (case A (m @ [entry]) of Inl e \<Rightarrow> Inl e | Inr model2 \<Rightarrow> B model2) of
        Inl e \<Rightarrow> Inl e | Inr model4 \<Rightarrow> C model4)"
  proof -
    have "createModelRecursion (Suc fuel) h fwi ctx parent object m =
     (case A (m @ [entry]) of Inl e \<Rightarrow> Inl e | Inr model2 \<Rightarrow>
        (case B model2 of Inl e \<Rightarrow> Inl e | Inr model4 \<Rightarrow> C model4))"
      unfolding A_def B_def C_def rec_def entry_def ext_def createModelRecursion.simps Let_def
      by (rule refl)
    then show ?thesis by (cases "A (m @ [entry])") simp_all
  qed
  have ext_pages: "ext \<Longrightarrow> containerExtension h object \<noteq> None"
    unfolding ext_def entry_def by (rule mkObjectData_extension)
  have Arun: "(A m1 = Inr r1) = (\<exists>subs. visitsEach rec tA subs \<and> r1 = m1 @ concat subs)" for m1 r1
  proof (cases ext)
    case False
    then show ?thesis by (auto simp: A_def tA_def)
  next
    case True
    with ext_pages obtain pages where "containerExtension h object = Some pages" by auto
    with True pagesLoop_visits[OF apr] show ?thesis by (simp add: A_def tA_def)
  qed
  have Beq: "B m2 = (case buttonGroupsLoop rec widgets m2 of Inl e \<Rightarrow> Inl e
                     | Inr m' \<Rightarrow> buttonGroupsLoop rec bgs m')" for m2
  proof (cases "children h object = []")
    case True
    then show ?thesis by (simp add: B_def widgets_def bgs_def)
  next
    case False
    then show ?thesis
      by (cases "buttonGroupsLoop rec widgets m2")
         (simp_all add: B_def childrenLoop_as_visits widgets_def[symmetric] bgs_def[symmetric])
  qed
  have Ceq: "C m4 = buttonGroupsLoop rec acts m4" for m4
    by (simp add: C_def acts_def actionsLoop_as_visits)
  note W = buttonGroupsLoop_visits[OF apr]
  have Brun: "(B m2 = Inr r2) = (\<exists>subs. visitsEach rec (map Some widgets @ map Some bgs) subs
                  \<and> r2 = m2 @ concat subs)" for m2 r2
    unfolding Beq by (rule visits_compose) (rule W)+
  have ABrun: "((case A m1 of Inl e \<Rightarrow> Inl e | Inr model2 \<Rightarrow> B model2) = Inr r2) =
        (\<exists>subs. visitsEach rec (tA @ map Some widgets @ map Some bgs) subs \<and> r2 = m1 @ concat subs)"
    for m1 r2
    by (rule visits_compose) (rule Arun Brun)+
  have Crun: "(C m4 = Inr r4) = (\<exists>subs. visitsEach rec (map Some acts) subs \<and> r4 = m4 @ concat subs)"
    for m4 r4
    unfolding Ceq by (rule W)
  have targets: "recursionTargets h fwi object (m_type entry)
                 = (tA @ map Some widgets @ map Some bgs) @ map Some acts"
    by (cases ext) (simp_all add: recursionTargets_def tA_def widgets_def bgs_def acts_def ext_def)
  have "(createModelRecursion (Suc fuel) h fwi ctx parent object m = Inr r) =
        (\<exists>subs. visitsEach rec ((tA @ map Some widgets @ map Some bgs) @ map Some acts) subs
               \<and> r = (m @ [entry]) @ concat subs)"
    unfolding unf by (rule visits_compose) (rule ABrun Crun)+
  then show ?thesis
    unfolding targets[symmetric] unfolding rec_def entry_def
    by (simp del: createModelRecursion.simps)
qed

lemma createModelRecursion_appendsSnapshot:
  "appendsSnapshot (createModelRecursion fuel h fwi ctx parent)"
proof (induction fuel arbitrary: parent)
  case 0
  show ?case by (simp add: appendsSnapshot_def)
next
  case (Suc fuel)
  show ?case
    unfolding appendsSnapshot_def
  proof (intro allI)
    fix c m r
    have V: "(createModelRecursion (Suc fuel) h fwi ctx parent c m' = Inr r') =
      (\<exists>subs. visitsEach (createModelRecursion fuel h fwi ctx (Some c))
              (recursionTargets h fwi c (m_type (mkObjectData h ctx parent c))) subs
           \<and> r' = m' @ mkObjectData h ctx parent c # concat subs)" for m' r'
      by (rule createModelRecursion_Suc_visits) (rule Suc)
    show "(createModelRecursion (Suc fuel) h fwi ctx parent c m = Inr r) =
          (\<exists>sub. createModelRecursion (Suc fuel) h fwi ctx parent c [] = Inr sub \<and> r = m @ sub)"
      unfolding V by auto
  qed
qed


section \<open>What an update returns\<close>


lemma createModelRecursion_parentsInPlace:
  assumes "createModelRecursion fuel h fwi ctx parent object [] = Inr N"
  shows "parentsInPlace N" and "N \<noteq> []" and "m_parent (hd N) = parent"
proof -
  from createModelRecursion_parents[OF assms] obtain rest where
    N: "N = mkObjectData h ctx parent object # rest" and pk: "parentsKnown {Some object} rest"
    by auto
  from N pk show "parentsInPlace N" by (simp add: parentsInPlace_def)
  from N show "N \<noteq> []" by simp
  from N show "m_parent (hd N) = parent" by simp
qed

lemma update_result:
  assumes inv: "modelInvariant st"
    and mc: "mainContainer h f = Some container"
    and n: "createModelRecursion fuel h f
              (mkModelRecursionContext (translate h ''ObjectInspectorModel'' ''separator''))
              None container [] = Inr N"
  shows "\<exists>res st'. update fuel h (Some f) st = Inr (res, st')
     \<and> (res = Updated) = (identityPairs N = identityPairs (m_model st))
     \<and> (if identityPairs N = identityPairs (m_model st)
        then updateItemContents (st\<lparr>m_formWindow := Some f\<rparr>) N = Inr st'
             \<and> map shapeOf (modelRows st') = map shapeOf (modelRows st)
             \<and> m_objectIndexMultiMap st' = m_objectIndexMultiMap st
        else res = Rebuilt \<and> m_model st' = N
             \<and> exactlyRebuilt (m_icons st) N (m_objectIndexMultiMap st') (modelRows st'))"
proof -
  define st1 where "st1 = st\<lparr>m_formWindow := Some f\<rparr>"
  from inv have inv1: "modelInvariant st1" by (simp add: st1_def modelInvariant_def)
  have eq: "ObjectModel_eq N (m_model st1) = (identityPairs N = identityPairs (m_model st))"
    by (simp add: ObjectModel_eq_iff st1_def)
  have u: "update fuel h (Some f) st =
     (if ObjectModel_eq N (m_model st1) then
        (case updateItemContents st1 N of Inl e \<Rightarrow> Inl e | Inr st2 \<Rightarrow> Inr (Updated, st2))
      else
        (case rebuild st1 N of Inl e \<Rightarrow> Inl e | Inr st2 \<Rightarrow> Inr (Rebuilt, st2\<lparr>m_model := N\<rparr>)))"
    unfolding update_form[OF mc] n st1_def by simp
  show ?thesis
  proof (cases "identityPairs N = identityPairs (m_model st)")
    case True
    then have "identityPairs N = identityPairs (m_model st1)" by (simp add: st1_def)
    then have "length (m_model st1) = length N"
      by (rule identityPairs_length[symmetric])
    from updateItemContents_succeeds[OF inv1 this] obtain st' where
      s: "updateItemContents st1 N = Inr st'"
         "map shapeOf (modelRows st') = map shapeOf (modelRows st1)"
         "m_objectIndexMultiMap st' = m_objectIndexMultiMap st1" by blast
    from True eq u s(1) have "update fuel h (Some f) st = Inr (Updated, st')" by simp
    with True s show ?thesis by (simp add: st1_def)
  next
    case False
    from createModelRecursion_parentsInPlace(1)[OF n] have "parentsInPlace N" .
    from rebuild_succeeds[OF this] obtain st2 where r: "rebuild st1 N = Inr st2" by blast
    from inv1 have "length (modelRows st1) \<le> 1" by (simp add: modelInvariant_def)
    from rebuild_exact[OF r this]
    have ex: "exactlyRebuilt (m_icons st1) N (m_objectIndexMultiMap st2) (modelRows st2)" by simp
    from False eq u r have "update fuel h (Some f) st = Inr (Rebuilt, st2\<lparr>m_model := N\<rparr>)" by simp
    with False ex show ?thesis by (simp add: st1_def)
  qed
qed

lemma demoSnapshot_built:
  "createModelRecursion 3 demoHost 0
     (mkModelRecursionContext (translate demoHost ''ObjectInspectorModel'' ''separator''))
     None 1 [] = Inr demoSnapshot"
  by code_simp

lemma renamedSnapshot_built:
  "createModelRecursion 3 renamedHost 0
     (mkModelRecursionContext (translate renamedHost ''ObjectInspectorModel'' ''separator''))
     None 1 [] = Inr renamedSnapshot"
  by code_simp

lemma demoState_update:
  "update 3 demoHost (Some 0) (newObjectInspectorModel demoHost) = Inr (Rebuilt, demoState)"
  and demoState_model: "m_model demoState = demoSnapshot"
  and demoState_exact: "exactlyRebuilt (m_icons (newObjectInspectorModel demoHost)) demoSnapshot
          (m_objectIndexMultiMap demoState) (modelRows demoState)"
proof -
  have inv: "modelInvariant (newObjectInspectorModel demoHost)"
    by (rule reachable_invariant) (rule reachable_new)
  have mc: "mainContainer demoHost 0 = Some 1" by (simp add: demoHost_def)
  have ne: "identityPairs demoSnapshot \<noteq> identityPairs (m_model (newObjectInspectorModel demoHost))"
    by (simp add: newObjectInspectorModel_def demoSnapshot_def identityPairs_def)
  from update_result[OF inv mc demoSnapshot_built] ne obtain res st' where
    u: "update 3 demoHost (Some 0) (newObjectInspectorModel demoHost) = Inr (res, st')"
    and r: "res = Rebuilt" "m_model st' = demoSnapshot"
      "exactlyRebuilt (m_icons (newObjectInspectorModel demoHost)) demoSnapshot
          (m_objectIndexMultiMap st') (modelRows st')"
    by auto
  from u have d: "demoState = st'" by (simp add: demoState_def)
  from u r d show "update 3 demoHost (Some 0) (newObjectInspectorModel demoHost) = Inr (Rebuilt, demoState)"
    by simp
  from r d show "m_model demoState = demoSnapshot" by simp
  from r d show "exactlyRebuilt (m_icons (newObjectInspectorModel demoHost)) demoSnapshot
          (m_objectIndexMultiMap demoState) (modelRows demoState)" by simp
qed

lemma demoState_reachable: "reachable demoState"
  using reachable_new demoState_update by (rule reachable_update)



section \<open>The calls a patch makes\<close>


lemma filter_patch_calls:
  "filter (\<lambda>c. m_object (patchEntry c) = o')
     (map (\<lambda>index. \<lparr>patchIndex = index, patchEntry = e, patchMask = k\<rparr>) vs) =
   (if m_object e = o' then map (\<lambda>index. \<lparr>patchIndex = index, patchEntry = e, patchMask = k\<rparr>) vs
    else [])"
  by (induction vs) auto

lemma updateItemContentsLoop_calls:
  "filter (\<lambda>c. m_object (patchEntry c) = o') (snd (updateItemContentsLoop mm changed old new)) =
   (if o' \<in> changed then []
    else (case find (\<lambda>p. compare (fst p) (snd p) \<noteq> 0 \<and> m_object (snd p) = o') (zip old new) of
            None \<Rightarrow> []
          | Some p \<Rightarrow>
              map (\<lambda>index. \<lparr>patchIndex = index, patchEntry = snd p,
                              patchMask = compare (fst p) (snd p)\<rparr>)
                  (multiMapValues mm o')))"
proof (induction mm changed old new rule: updateItemContentsLoop.induct)
  case (1 mm changedObjects entry oldModel newEntry newModel)
  show ?case
  proof (cases "compare entry newEntry \<noteq> 0")
    case False
    with 1 show ?thesis by (simp add: Let_def)
  next
    case True
    show ?thesis
    proof (cases "m_object newEntry \<notin> changedObjects")
      case False
      with True 1 show ?thesis by (auto simp: Let_def)
    next
      case new: True
      with True 1 show ?thesis by (auto simp: Let_def filter_patch_calls)
    qed
  qed
qed simp_all

lemma compare_cong:
  assumes "compare a a' = 0" and "compare b b' = 0"
  shows "compare a b = compare a' b'"
  using assms unfolding compare_zero_iff by (simp add: compare_def)


section \<open>Snapshots are coherent\<close>


lemma compare_refl: "compare a a = 0"
  by (simp add: compare_zero_iff)

lemma compare_sym: "compare a b = 0 \<Longrightarrow> compare b a = 0"
  by (simp add: compare_zero_iff)

lemma compare_trans: "compare a b = 0 \<Longrightarrow> compare b c = 0 \<Longrightarrow> compare a c = 0"
  by (simp add: compare_zero_iff)

lemma mkObjectData_parent_free:
  "compare (mkObjectData h ctx p object) (mkObjectData h ctx p' object) = 0"
  by (simp add: compare_zero_iff mkObjectData_def initWidget_def initObject_def
      defaultObjectData_def Let_def split: option.splits)

lemma visitsEach_member:
  "visitsEach rec targets subs \<Longrightarrow> sub \<in> set subs \<Longrightarrow> \<exists>c. rec c [] = Inr sub"
proof (induction targets arbitrary: subs)
  case Nil
  then show ?case by simp
next
  case (Cons t ts)
  from Cons.prems(1) obtain c s rest where
    "rec c [] = Inr s" "visitsEach rec ts rest" "subs = s # rest"
    unfolding visitsEach_Cons by blast
  with Cons.prems(2) Cons.IH show ?case by auto
qed

lemma createModelRecursion_entries:
  "createModelRecursion fuel h fwi ctx parent object [] = Inr s \<Longrightarrow> e \<in> set s \<Longrightarrow>
   \<exists>p c. e = mkObjectData h ctx p c"
proof (induction fuel arbitrary: parent object s)
  case 0
  then show ?case by simp
next
  case (Suc fuel)
  have "appendsSnapshot (createModelRecursion fuel h fwi ctx (Some object))"
    by (rule createModelRecursion_appendsSnapshot)
  from createModelRecursion_Suc_visits[OF this, of parent "[]" s] Suc.prems(1)
  obtain subs where v: "visitsEach (createModelRecursion fuel h fwi ctx (Some object))
       (recursionTargets h fwi object (m_type (mkObjectData h ctx parent object))) subs"
    and s: "s = mkObjectData h ctx parent object # concat subs"
    by auto
  from Suc.prems(2) s consider "e = mkObjectData h ctx parent object"
    | sub where "sub \<in> set subs" "e \<in> set sub" by auto
  then show ?case
  proof cases
    case 1
    then show ?thesis by blast
  next
    case 2
    from visitsEach_member[OF v 2(1)] obtain c where
      "createModelRecursion fuel h fwi ctx (Some object) c [] = Inr sub" by blast
    from Suc.IH[OF this 2(2)] show ?thesis .
  qed
qed

lemma createModelRecursion_coherent:
  assumes "createModelRecursion fuel h fwi ctx parent object [] = Inr s"
  shows "coherent s"
  unfolding coherent_def
proof (intro ballI impI)
  fix a b assume a: "a \<in> set s" and b: "b \<in> set s" and o: "m_object a = m_object b"
  from createModelRecursion_entries[OF assms a] obtain p c where pa: "a = mkObjectData h ctx p c"
    by blast
  from createModelRecursion_entries[OF assms b] obtain p' c' where pb: "b = mkObjectData h ctx p' c'"
    by blast
  from o pa pb have "c = c'" by simp
  with pa pb show "compare a b = 0" by (simp add: mkObjectData_parent_free)
qed

lemma displaysLike_member:
  "displaysLike xs ys \<Longrightarrow> a \<in> set xs \<Longrightarrow>
   \<exists>a'\<in>set ys. m_object a = m_object a' \<and> compare a a' = 0"
  unfolding displaysLike_def
  by (induction xs ys rule: list_all2_induct) auto

lemma displaysLike_coherent:
  assumes d: "displaysLike xs ys" and c: "coherent ys"
  shows "coherent xs"
  unfolding coherent_def
proof (intro ballI impI)
  fix a b assume a: "a \<in> set xs" and b: "b \<in> set xs" and o: "m_object a = m_object b"
  from displaysLike_member[OF d a] obtain a' where
    a': "a' \<in> set ys" "m_object a = m_object a'" "compare a a' = 0" by blast
  from displaysLike_member[OF d b] obtain b' where
    b': "b' \<in> set ys" "m_object b = m_object b'" "compare b b' = 0" by blast
  from c a'(1) b'(1) a'(2) b'(2) o have "compare a' b' = 0" by (simp add: coherent_def)
  with a'(3) have "compare a b' = 0" by (rule compare_trans)
  then show "compare a b = 0" using compare_sym[OF b'(3)] by (rule compare_trans)
qed

lemma updateItemContentsLoop_displaysLike:
  "list_all2 (\<lambda>x y. m_object x = m_object y) old new \<Longrightarrow>
   displaysLike (fst (updateItemContentsLoop mm changed old new)) new"
proof (induction mm changed old new rule: updateItemContentsLoop.induct)
  case (1 mm changedObjects entry oldModel newEntry newModel)
  from "1.prems" have rest: "list_all2 (\<lambda>x y. m_object x = m_object y) oldModel newModel"
    and o: "m_object entry = m_object newEntry" by simp_all
  show ?case
  proof (cases "compare entry newEntry \<noteq> 0")
    case False
    with 1 rest o show ?thesis by (simp add: Let_def displaysLike_def)
  next
    case True
    show ?thesis
    proof (cases "m_object newEntry \<notin> changedObjects")
      case False
      with True 1 rest show ?thesis by (simp add: Let_def displaysLike_def compare_refl)
    next
      case new: True
      with True 1 rest show ?thesis by (simp add: Let_def displaysLike_def compare_refl)
    qed
  qed
qed (simp_all add: displaysLike_def)

lemma identityPairs_objects:
  "identityPairs xs = identityPairs ys \<Longrightarrow> list_all2 (\<lambda>x y. m_object x = m_object y) xs ys"
proof (induction xs arbitrary: ys)
  case Nil
  then show ?case by (simp add: identityPairs_def)
next
  case (Cons x xs)
  then obtain y ys' where "ys = y # ys'" by (cases ys) (auto simp: identityPairs_def)
  with Cons show ?case by (auto simp: identityPairs_def)
qed

lemma update_coherent:
  assumes c: "coherent (m_model st)" and u: "update fuel h fw st = Inr (r, st')"
  shows "coherent (m_model st')"
proof (cases "fw = None \<or> (\<exists>f. fw = Some f \<and> mainContainer h f = None)")
  case True
  from update_noForm[OF this, of fuel st] u
  have "st' = (clearItems st)\<lparr>m_formWindow := None\<rparr>" by simp
  then show ?thesis by (simp add: clearItems_def coherent_def)
next
  case False
  then obtain f container where fw: "fw = Some f" and mc: "mainContainer h f = Some container"
    by auto
  define st1 where "st1 = st\<lparr>m_formWindow := Some f\<rparr>"
  define ctx where "ctx = mkModelRecursionContext (translate h ''ObjectInspectorModel'' ''separator'')"
  note uf = u[unfolded fw update_form[OF mc], folded st1_def ctx_def]
  from uf obtain newModel where
    n: "createModelRecursion fuel h f ctx None container [] = Inr newModel"
    by (cases "createModelRecursion fuel h f ctx None container []") auto
  from createModelRecursion_coherent[OF n] have cn: "coherent newModel" .
  show ?thesis
  proof (cases "ObjectModel_eq newModel (m_model st1)")
    case True
    with uf n have "(case updateItemContents st1 newModel of Inl e \<Rightarrow> Inl e
        | Inr st2 \<Rightarrow> Inr (Updated, st2)) = Inr (r, st')" by simp
    then have a: "updateItemContents st1 newModel = Inr st'"
      by (cases "updateItemContents st1 newModel") simp_all
    from True have "identityPairs (m_model st1) = identityPairs newModel"
      by (simp add: ObjectModel_eq_iff)
    then have l: "list_all2 (\<lambda>x y. m_object x = m_object y) (m_model st1) newModel"
      by (rule identityPairs_objects)
    from a have "m_model st' =
       fst (updateItemContentsLoop (m_objectIndexMultiMap st1) {} (m_model st1) newModel)"
      by (auto simp: updateItemContents_def Let_def split: if_splits sum.splits)
    with updateItemContentsLoop_displaysLike[OF l] have "displaysLike (m_model st') newModel"
      by simp
    then show ?thesis using cn by (rule displaysLike_coherent)
  next
    case False
    with uf n have "(case rebuild st1 newModel of Inl e \<Rightarrow> Inl e
        | Inr st2 \<Rightarrow> Inr (Rebuilt, st2\<lparr>m_model := newModel\<rparr>)) = Inr (r, st')" by simp
    then have "m_model st' = newModel"
      by (cases "rebuild st1 newModel") auto
    with cn show ?thesis by simp
  qed
qed

lemma reachable_coherent: "reachable st \<Longrightarrow> coherent (m_model st)"
proof (induction rule: reachable.induct)
  case (reachable_new h)
  show ?case by (simp add: coherent_def newObjectInspectorModel_def)
next
  case (reachable_update st fuel h fw r st')
  from update_coherent[OF reachable_update.IH reachable_update.hyps(2)] show ?case .
qed

lemma patch_mask_of_every_position:
  assumes co: "coherent old" and cn: "coherent new"
    and obj: "list_all2 (\<lambda>x y. m_object x = m_object y) old new"
    and c: "c \<in> set (snd (updateItemContentsLoop mm {} old new))"
    and q: "q \<in> set (zip old new)"
    and o: "m_object (snd q) = m_object (patchEntry c)"
  shows "patchMask c = compare (fst q) (snd q) \<and> compare (patchEntry c) (snd q) = 0"
proof -
  let ?P = "\<lambda>p. compare (fst p) (snd p) \<noteq> 0 \<and> m_object (snd p) = m_object (patchEntry c)"
  from c have "c \<in> set (filter (\<lambda>d. m_object (patchEntry d) = m_object (patchEntry c))
                        (snd (updateItemContentsLoop mm {} old new)))" by simp
  then obtain p where f: "find ?P (zip old new) = Some p"
    and cp: "patchEntry c = snd p" "patchMask c = compare (fst p) (snd p)"
    unfolding updateItemContentsLoop_calls by (cases "find ?P (zip old new)") auto
  from f have pin: "p \<in> set (zip old new)" and po: "m_object (snd p) = m_object (patchEntry c)"
    by (auto simp: find_Some_iff in_set_conv_nth)
  have same: "m_object (fst x) = m_object (snd x)" if "x \<in> set (zip old new)" for x
    using obj that by (auto simp: in_set_zip list_all2_conv_all_nth)
  have zmem: "fst x \<in> set old \<and> snd x \<in> set new" if "x \<in> set (zip old new)" for x
    using that by (metis set_zip_leftD set_zip_rightD prod.collapse)
  from zmem[OF pin] zmem[OF q]
  have mem: "fst p \<in> set old" "snd p \<in> set new" "fst q \<in> set old" "snd q \<in> set new"
    by simp_all
  from cn mem(2,4) po o have z2: "compare (snd p) (snd q) = 0" by (simp add: coherent_def)
  from same[OF pin] same[OF q] po o have "m_object (fst p) = m_object (fst q)" by simp
  with co mem(1,3) have z1: "compare (fst p) (fst q) = 0" by (simp add: coherent_def)
  from compare_cong[OF z1 z2] cp z2 show ?thesis by simp
qed


section \<open>The rows after a patch\<close>

lemma rowItemsAt_updateRowAt:
  "rowItemsAt q (updateRowAt p f rs) =
     (case rowItemsAt q rs of
        None \<Rightarrow> None
      | Some items \<Rightarrow> Some (if q = p then f items else items))"
proof (induction q arbitrary: p rs)
  case Nil
  then show ?case by (simp add: rowItemsAt_def)
next
  case (Cons i q)
  show ?case
  proof (cases p)
    case Nil
    then show ?thesis by (auto simp: rowItemsAt_def split: option.splits)
  next
    case (Cons j p')
    show ?thesis
    proof (cases "j < length rs")
      case False
      with Cons show ?thesis by (auto simp: rowItemsAt_def split: option.splits)
    next
      case True
      show ?thesis
      proof (cases "i = j")
        case False
        with True Cons show ?thesis by (auto simp: rowItemsAt_def split: option.splits)
      next
        case ij: True
        show ?thesis
        proof (cases "q = []")
          case True
          with ij \<open>j < length rs\<close> Cons show ?thesis
            by (auto simp: rowItemsAt_def split: option.splits)
        next
          case False
          show ?thesis
          proof (cases "p' = []")
            case True
            with False ij \<open>j < length rs\<close> Cons show ?thesis
              by (auto simp: rowItemsAt_def split: option.splits)
          next
            case p': False
            from Cons.IH[of p' "childRows (rs ! j)"] False p' ij \<open>j < length rs\<close> Cons
            show ?thesis by (auto simp: rowItemsAt_def split: option.splits)
          qed
        qed
      qed
    qed
  qed
qed

lemma applyPatchCalls_rows:
  "applyPatchCalls icons calls rows = Inr rows' \<Longrightarrow>
   rowItemsAt q rows' =
     (case rowItemsAt q rows of
        None \<Rightarrow> None
      | Some items \<Rightarrow> Some (applyCallsTo icons (filter (\<lambda>c. patchIndex c = q) calls) items))"
proof (induction calls arbitrary: rows)
  case Nil
  then show ?case by (simp add: applyCallsTo_def split: option.splits)
next
  case (Cons c cs)
  let ?f = "setItemsDisplayData (patchEntry c) icons (patchMask c)"
  let ?rows1 = "updateRowAt (patchIndex c) ?f rows"
  from Cons.prems have "applyPatchCalls icons cs ?rows1 = Inr rows'"
    by (simp split: option.splits)
  from Cons.IH[OF this]
  have "rowItemsAt q rows' =
     (case rowItemsAt q ?rows1 of
        None \<Rightarrow> None
      | Some items \<Rightarrow> Some (applyCallsTo icons (filter (\<lambda>c. patchIndex c = q) cs) items))" .
  then show ?case
    by (cases "rowItemsAt q rows")
       (simp_all add: rowItemsAt_updateRowAt applyCallsTo_def)
qed

lemma filter_single: "distinct xs \<Longrightarrow> q \<in> set xs \<Longrightarrow> filter (\<lambda>x. x = q) xs = [q]"
proof (induction xs)
  case Nil
  then show ?case by simp
next
  case (Cons x xs)
  show ?case
  proof (cases "x = q")
    case True
    with Cons.prems have "q \<notin> set xs" by simp
    then have "filter (\<lambda>x. x = q) xs = []" by (auto simp: filter_empty_conv)
    with True show ?thesis by simp
  next
    case False
    with Cons show ?thesis by simp
  qed
qed

lemma multiMapValues_distinct:
  "distinct (map snd mm) \<Longrightarrow> distinct (multiMapValues mm k)"
  unfolding multiMapValues_def by (rule distinct_map_filter)

lemma index_key_unique:
  "distinct (map snd mm) \<Longrightarrow> (a, q) \<in> set mm \<Longrightarrow> (b, q) \<in> set mm \<Longrightarrow> a = b"
proof -
  assume d: "distinct (map snd mm)" and a: "(a, q) \<in> set mm" and b: "(b, q) \<in> set mm"
  from d have "inj_on snd (set mm)" by (simp add: distinct_map)
  from inj_onD[OF this _ a b] show "a = b" by simp
qed

lemma patch_call_in_index:
  assumes "c \<in> set (snd (updateItemContentsLoop mm {} old new))"
  shows "(m_object (patchEntry c), patchIndex c) \<in> set mm"
proof -
  let ?o = "m_object (patchEntry c)"
  let ?P = "\<lambda>p. compare (fst p) (snd p) \<noteq> 0 \<and> m_object (snd p) = ?o"
  from assms have "c \<in> set (filter (\<lambda>d. m_object (patchEntry d) = ?o)
                        (snd (updateItemContentsLoop mm {} old new)))" by simp
  then have "patchIndex c \<in> set (multiMapValues mm ?o)"
    unfolding updateItemContentsLoop_calls by (cases "find ?P (zip old new)") auto
  then show ?thesis by (auto simp: multiMapValues_def)
qed

lemma patch_calls_at_index:
  assumes d: "distinct (map snd mm)" and kq: "(k, q) \<in> set mm"
  shows "filter (\<lambda>c. patchIndex c = q) (snd (updateItemContentsLoop mm {} old new)) =
     (case find (\<lambda>p. compare (fst p) (snd p) \<noteq> 0 \<and> m_object (snd p) = k) (zip old new) of
        None \<Rightarrow> []
      | Some p \<Rightarrow> [\<lparr>patchIndex = q, patchEntry = snd p, patchMask = compare (fst p) (snd p)\<rparr>])"
proof -
  let ?calls = "snd (updateItemContentsLoop mm {} old new)"
  have "filter (\<lambda>c. patchIndex c = q) ?calls =
        filter (\<lambda>c. patchIndex c = q) (filter (\<lambda>c. m_object (patchEntry c) = k) ?calls)"
  proof -
    have "(patchIndex c = q) = (m_object (patchEntry c) = k \<and> patchIndex c = q)"
      if "c \<in> set ?calls" for c
      using index_key_unique[OF d patch_call_in_index[OF that] , of k] kq by auto
    then show ?thesis by (simp add: conj_commute cong: filter_cong)
  qed
  also have "\<dots> =
     (case find (\<lambda>p. compare (fst p) (snd p) \<noteq> 0 \<and> m_object (snd p) = k) (zip old new) of
        None \<Rightarrow> []
      | Some p \<Rightarrow>
          map (\<lambda>index. \<lparr>patchIndex = index, patchEntry = snd p,
                          patchMask = compare (fst p) (snd p)\<rparr>)
              (filter (\<lambda>x. x = q) (multiMapValues mm k)))"
    unfolding updateItemContentsLoop_calls
    by (simp add: filter_map comp_def split: option.splits)
  also have "filter (\<lambda>x. x = q) (multiMapValues mm k) = [q]"
  proof (rule filter_single)
    show "distinct (multiMapValues mm k)" using d by (rule multiMapValues_distinct)
    from kq show "q \<in> set (multiMapValues mm k)" by (force simp: multiMapValues_def)
  qed
  finally show ?thesis by (simp split: option.splits)
qed

lemma updateItemContents_parts:
  assumes "updateItemContents st newModel = Inr st'"
  shows "applyPatchCalls (m_icons st)
          (snd (updateItemContentsLoop (m_objectIndexMultiMap st) {} (m_model st) newModel))
          (modelRows st) = Inr (modelRows st')"
    and "m_objectIndexMultiMap st' = m_objectIndexMultiMap st"
    and "m_model st' = fst (updateItemContentsLoop (m_objectIndexMultiMap st) {} (m_model st) newModel)"
  using assms by (auto simp: updateItemContents_def Let_def split: if_splits sum.splits)

lemma update_index_distinct:
  assumes inv: "modelInvariant st" and d: "distinct (map snd (m_objectIndexMultiMap st))"
    and u: "update fuel h fw st = Inr (r, st')"
  shows "distinct (map snd (m_objectIndexMultiMap st'))"
proof (cases "fw = None \<or> (\<exists>f. fw = Some f \<and> mainContainer h f = None)")
  case True
  from update_noForm[OF this, of fuel st] u
  have "st' = (clearItems st)\<lparr>m_formWindow := None\<rparr>" by simp
  then show ?thesis by (simp add: clearItems_def)
next
  case False
  then obtain f container where fw: "fw = Some f" and mc: "mainContainer h f = Some container"
    by auto
  define st1 where "st1 = st\<lparr>m_formWindow := Some f\<rparr>"
  define ctx where "ctx = mkModelRecursionContext (translate h ''ObjectInspectorModel'' ''separator'')"
  note uf = u[unfolded fw update_form[OF mc], folded st1_def ctx_def]
  from uf obtain newModel where
    n: "createModelRecursion fuel h f ctx None container [] = Inr newModel"
    by (cases "createModelRecursion fuel h f ctx None container []") auto
  show ?thesis
  proof (cases "ObjectModel_eq newModel (m_model st1)")
    case True
    with uf n have "(case updateItemContents st1 newModel of Inl e \<Rightarrow> Inl e
        | Inr st2 \<Rightarrow> Inr (Updated, st2)) = Inr (r, st')" by simp
    then have a: "updateItemContents st1 newModel = Inr st'"
      by (cases "updateItemContents st1 newModel") simp_all
    from updateItemContents_parts(2)[OF a] d show ?thesis by (simp add: st1_def)
  next
    case False
    with uf n have "(case rebuild st1 newModel of Inl e \<Rightarrow> Inl e
        | Inr st2 \<Rightarrow> Inr (Rebuilt, st2\<lparr>m_model := newModel\<rparr>)) = Inr (r, st')" by simp
    then have "\<exists>st2. rebuild st1 newModel = Inr st2 \<and> st' = st2\<lparr>m_model := newModel\<rparr>"
      by (cases "rebuild st1 newModel") simp_all
    then obtain st2 where r2: "rebuild st1 newModel = Inr st2"
      and st': "st' = st2\<lparr>m_model := newModel\<rparr>" by blast
    from inv have "length (modelRows st1) \<le> 1" by (simp add: modelInvariant_def st1_def)
    from rebuild_exact[OF r2 this] st' show ?thesis by (simp add: exactlyRebuilt_def)
  qed
qed

lemma reachable_index_distinct: "reachable st \<Longrightarrow> distinct (map snd (m_objectIndexMultiMap st))"
proof (induction rule: reachable.induct)
  case (reachable_new h)
  show ?case by (simp add: newObjectInspectorModel_def)
next
  case (reachable_update st fuel h fw r st')
  from reachable_invariant[OF reachable_update.hyps(1)] reachable_update.IH reachable_update.hyps(2)
  show ?case by (rule update_index_distinct)
qed

lemma patched_rows:
  assumes r: "reachable st"
    and u: "updateItemContents (st\<lparr>m_formWindow := fw\<rparr>) N = Inr st'"
    and kq: "(k, q) \<in> set (m_objectIndexMultiMap st)"
  shows "\<exists>items. rowItemsAt q (modelRows st) = Some items
     \<and> rowItemsAt q (modelRows st') =
         Some (case find (\<lambda>p. compare (fst p) (snd p) \<noteq> 0 \<and> m_object (snd p) = k)
                      (zip (m_model st) N) of
                 None \<Rightarrow> items
               | Some p \<Rightarrow>
                   setItemsDisplayData (snd p) (m_icons st) (compare (fst p) (snd p)) items)"
proof -
  from reachable_invariant[OF r] kq obtain items where
    i: "rowItemsAt q (modelRows st) = Some items"
    by (auto simp: modelInvariant_def list_all_iff rowItemsAt_def)
  let ?calls = "snd (updateItemContentsLoop (m_objectIndexMultiMap st) {} (m_model st) N)"
  from updateItemContents_parts(1)[OF u]
  have a: "applyPatchCalls (m_icons st) ?calls (modelRows st) = Inr (modelRows st')" by simp
  note c = patch_calls_at_index[OF reachable_index_distinct[OF r] kq, of "m_model st" N]
  have "rowItemsAt q (modelRows st') =
         Some (case find (\<lambda>p. compare (fst p) (snd p) \<noteq> 0 \<and> m_object (snd p) = k)
                      (zip (m_model st) N) of
                 None \<Rightarrow> items
               | Some p \<Rightarrow>
                   setItemsDisplayData (snd p) (m_icons st) (compare (fst p) (snd p)) items)"
    unfolding applyPatchCalls_rows[OF a, of q] c i
    by (cases "find (\<lambda>p. compare (fst p) (snd p) \<noteq> 0 \<and> m_object (snd p) = k) (zip (m_model st) N)")
       (simp_all add: applyCallsTo_def)
  with i show ?thesis by (intro exI[of _ items] conjI)
qed

lemma update_patched_rows:
  assumes r: "reachable st"
    and mc: "mainContainer h f = Some container"
    and n: "createModelRecursion fuel h f
              (mkModelRecursionContext (translate h ''ObjectInspectorModel'' ''separator''))
              None container [] = Inr N"
    and u: "update fuel h (Some f) st = Inr (Updated, st2)"
    and kq: "(k, q) \<in> set (m_objectIndexMultiMap st)"
  shows "\<exists>items. rowItemsAt q (modelRows st) = Some items
     \<and> rowItemsAt q (modelRows st2) =
         Some (case find (\<lambda>p. compare (fst p) (snd p) \<noteq> 0 \<and> m_object (snd p) = k)
                      (zip (m_model st) N) of
                 None \<Rightarrow> items
               | Some p \<Rightarrow>
                   setItemsDisplayData (snd p) (m_icons st) (compare (fst p) (snd p)) items)"
proof -
  from update_result[OF reachable_invariant[OF r] mc n] u
  have "updateItemContents (st\<lparr>m_formWindow := Some f\<rparr>) N = Inr st2"
    by (auto split: if_splits)
  with r show ?thesis using kq by (rule patched_rows)
qed

lemma laidOutSnapshot_built:
  "createModelRecursion 3 laidOutHost 0
     (mkModelRecursionContext (translate laidOutHost ''ObjectInspectorModel'' ''separator''))
     None 1 [] = Inr laidOutSnapshot"
  by code_simp

lemma demoState_patched:
  assumes mc: "mainContainer h 0 = Some container"
    and n: "createModelRecursion fuel h 0
              (mkModelRecursionContext (translate h ''ObjectInspectorModel'' ''separator''))
              None container [] = Inr N"
    and i: "identityPairs N = identityPairs demoSnapshot"
  shows "\<exists>st2. update fuel h (Some 0) demoState = Inr (Updated, st2)"
proof -
  have inv: "modelInvariant demoState" using demoState_reachable by (rule reachable_invariant)
  from i have "identityPairs N = identityPairs (m_model demoState)"
    by (simp only: demoState_model)
  with update_result[OF inv mc n] show ?thesis by auto
qed

section \<open>Update, rebuild and the builder (C1, C3, C5, C6)\<close>

text \<open>
  C1. For a model in a reachable state with stored snapshot \<open>P = m_model st\<close>, and the new
  snapshot \<open>N\<close> that walking the form from its main container produces, \<open>update\<close> returns;
  it returns \<open>Updated\<close> exactly when \<open>N\<close> and \<open>P\<close> are the same sequence of (parent, object)
  pairs, and then the new state is the one \<open>updateItemContents\<close> gives, with the same tree of
  rows and the same index map; otherwise it returns \<open>Rebuilt\<close>, stores \<open>N\<close>, and the rows and
  the index map are exactly those of \<open>N\<close>: one row per entry, in order, and no other row.
\<close>

theorem C1_update_patch_iff_same_identity_pairs:
  assumes "reachable st"
    and "mainContainer h f = Some container"
    and "createModelRecursion fuel h f
           (mkModelRecursionContext (translate h ''ObjectInspectorModel'' ''separator''))
           None container [] = Inr N"
  shows "\<exists>res st'. update fuel h (Some f) st = Inr (res, st')
     \<and> (res = Updated) = (identityPairs N = identityPairs (m_model st))
     \<and> (if identityPairs N = identityPairs (m_model st)
        then updateItemContents (st\<lparr>m_formWindow := Some f\<rparr>) N = Inr st'
             \<and> map shapeOf (modelRows st') = map shapeOf (modelRows st)
             \<and> m_objectIndexMultiMap st' = m_objectIndexMultiMap st
        else res = Rebuilt \<and> m_model st' = N
             \<and> exactlyRebuilt (m_icons st) N (m_objectIndexMultiMap st') (modelRows st'))"
  using reachable_invariant[OF assms(1)] assms(2,3) by (rule update_result)

theorem C1_witness:
  "(\<exists>st'. update 3 demoHost (Some 0) (newObjectInspectorModel demoHost) = Inr (Rebuilt, st')
          \<and> m_model st' = demoSnapshot)
   \<and> (\<exists>st'. update 3 renamedHost (Some 0) demoState = Inr (Updated, st')
          \<and> map shapeOf (modelRows st') = map shapeOf (modelRows demoState))"
proof -
  have mc: "mainContainer demoHost 0 = Some 1" by (simp add: demoHost_def)
  have mc': "mainContainer renamedHost 0 = Some 1" by (simp add: renamedHost_def demoHost_def)
  have ne: "identityPairs demoSnapshot \<noteq> identityPairs (m_model (newObjectInspectorModel demoHost))"
    by (simp add: newObjectInspectorModel_def demoSnapshot_def identityPairs_def)
  have eq: "identityPairs renamedSnapshot = identityPairs (m_model demoState)"
    unfolding demoState_model by code_simp
  from C1_update_patch_iff_same_identity_pairs[OF reachable_new[of demoHost] mc demoSnapshot_built]
  obtain res st' where u: "update 3 demoHost (Some 0) (newObjectInspectorModel demoHost) = Inr (res, st')"
    and c: "if identityPairs demoSnapshot = identityPairs (m_model (newObjectInspectorModel demoHost))
        then updateItemContents ((newObjectInspectorModel demoHost)\<lparr>m_formWindow := Some 0\<rparr>) demoSnapshot = Inr st'
             \<and> map shapeOf (modelRows st') = map shapeOf (modelRows (newObjectInspectorModel demoHost))
             \<and> m_objectIndexMultiMap st' = m_objectIndexMultiMap (newObjectInspectorModel demoHost)
        else res = Rebuilt \<and> m_model st' = demoSnapshot
             \<and> exactlyRebuilt (m_icons (newObjectInspectorModel demoHost)) demoSnapshot
                   (m_objectIndexMultiMap st') (modelRows st')"
    by blast
  from c ne have "res = Rebuilt" "m_model st' = demoSnapshot" by simp_all
  with u have a: "\<exists>st'. update 3 demoHost (Some 0) (newObjectInspectorModel demoHost) = Inr (Rebuilt, st')
          \<and> m_model st' = demoSnapshot"
    by (intro exI[of _ st']) simp
  from C1_update_patch_iff_same_identity_pairs[OF demoState_reachable mc' renamedSnapshot_built]
  obtain res2 st2 where u2: "update 3 renamedHost (Some 0) demoState = Inr (res2, st2)"
    and i2: "(res2 = Updated) = (identityPairs renamedSnapshot = identityPairs (m_model demoState))"
    and c2: "if identityPairs renamedSnapshot = identityPairs (m_model demoState)
        then updateItemContents (demoState\<lparr>m_formWindow := Some 0\<rparr>) renamedSnapshot = Inr st2
             \<and> map shapeOf (modelRows st2) = map shapeOf (modelRows demoState)
             \<and> m_objectIndexMultiMap st2 = m_objectIndexMultiMap demoState
        else res2 = Rebuilt \<and> m_model st2 = renamedSnapshot
             \<and> exactlyRebuilt (m_icons demoState) renamedSnapshot
                   (m_objectIndexMultiMap st2) (modelRows st2)"
    by blast
  from i2 c2 eq have "res2 = Updated" "map shapeOf (modelRows st2) = map shapeOf (modelRows demoState)"
    by simp_all
  with u2 have b: "\<exists>st'. update 3 renamedHost (Some 0) demoState = Inr (Updated, st')
          \<and> map shapeOf (modelRows st') = map shapeOf (modelRows demoState)"
    by (intro exI[of _ st2]) simp
  from a b show ?thesis by (rule conjI)
qed

text \<open>
  C3. When \<open>update\<close> is called on a reachable model with no form window, or with a form
  window that has no main container, it returns \<open>NoForm\<close> (it returns, and no error), the
  rows, the index map and the stored snapshot are empty and the form-window reference is
  null afterwards; the fuel plays no part, so no object graph is walked.
\<close>

theorem C3_update_without_form_clears:
  assumes "reachable st"
    and "fw = None \<or> (\<exists>f. fw = Some f \<and> mainContainer h f = None)"
  shows "\<exists>st'. update fuel h fw st = Inr (NoForm, st')
     \<and> modelRows st' = [] \<and> m_objectIndexMultiMap st' = [] \<and> m_model st' = []
     \<and> m_formWindow st' = None \<and> update 0 h fw st = Inr (NoForm, st')"
proof -
  from reachable_invariant[OF assms(1)] have inv: "modelInvariant st" .
  from update_noForm[OF assms(2)] clearItems_invariant[OF inv] show ?thesis by simp
qed

theorem C3_witness:
  "modelRows demoState \<noteq> [] \<and> m_objectIndexMultiMap demoState \<noteq> []
   \<and> (\<exists>st'. update 0 demoHost None demoState = Inr (NoForm, st')
          \<and> modelRows st' = [] \<and> m_objectIndexMultiMap st' = [] \<and> m_formWindow st' = None)
   \<and> (\<exists>st'. update 0 demoHost (Some 1) demoState = Inr (NoForm, st')
          \<and> modelRows st' = [] \<and> m_objectIndexMultiMap st' = [] \<and> m_formWindow st' = None)"
proof -
  have a: "modelRows demoState \<noteq> []" by code_simp
  have b: "m_objectIndexMultiMap demoState \<noteq> []" by code_simp
  have h1: "None = None \<or> (\<exists>f. (None :: FormWindowId option) = Some f \<and> mainContainer demoHost f = None)"
    by simp
  have h2: "Some 1 = None \<or> (\<exists>f. Some (1 :: FormWindowId) = Some f \<and> mainContainer demoHost f = None)"
    by (simp add: demoHost_def)
  from C3_update_without_form_clears[OF demoState_reachable h1, of 0]
       C3_update_without_form_clears[OF demoState_reachable h2, of 0] a b
  show ?thesis by blast
qed

text \<open>
  C5. A rebuild, from a reachable state of the model and any form-window reference, that
  returns leaves the index map and the rows exactly as the new snapshot \<open>N\<close> gives them: in
  the order of insertion the keys of the map are the objects of \<open>N\<close>, entry by entry, each
  naming its own row, which displays that entry; the tree has \<open>length N\<close> rows; and a key
  that is no object of \<open>N\<close> has no value left. A snapshot whose parents are in place
  (as the builder's are) is rebuilt without an error.
\<close>

theorem C5_rebuild_index_exact:
  assumes "reachable st"
  shows "(rebuild (st\<lparr>m_formWindow := fw\<rparr>) N = Inr st' \<longrightarrow>
            exactlyRebuilt (m_icons st) N (m_objectIndexMultiMap st') (modelRows st')
          \<and> map fst (rev (m_objectIndexMultiMap st')) = map m_object N
          \<and> length (m_objectIndexMultiMap st') = length N
          \<and> (\<forall>k. k \<notin> set (map m_object N) \<longrightarrow> multiMapValues (m_objectIndexMultiMap st') k = []))
     \<and> (parentsInPlace N \<longrightarrow> (\<exists>st2. rebuild (st\<lparr>m_formWindow := fw\<rparr>) N = Inr st2))"
proof (intro conjI impI)
  assume r: "rebuild (st\<lparr>m_formWindow := fw\<rparr>) N = Inr st'"
  from reachable_invariant[OF assms] have "length (modelRows (st\<lparr>m_formWindow := fw\<rparr>)) \<le> 1"
    by (simp add: modelInvariant_def)
  from rebuild_exact[OF r this]
  show ex: "exactlyRebuilt (m_icons st) N (m_objectIndexMultiMap st') (modelRows st')" by simp
  then have l: "list_all2 (\<lambda>e kp. fst kp = m_object e) N (rev (m_objectIndexMultiMap st'))"
    unfolding exactlyRebuilt_def rowsHold_def by (auto elim: list_all2_mono)
  then show keys: "map fst (rev (m_objectIndexMultiMap st')) = map m_object N"
    by (induction rule: list_all2_induct) simp_all
  from l show "length (m_objectIndexMultiMap st') = length N"
    by (auto dest: list_all2_lengthD)
  show "\<forall>k. k \<notin> set (map m_object N) \<longrightarrow> multiMapValues (m_objectIndexMultiMap st') k = []"
  proof (intro allI impI)
    fix k assume "k \<notin> set (map m_object N)"
    with keys have "k \<notin> set (map fst (rev (m_objectIndexMultiMap st')))" by simp
    then have "k \<notin> fst ` set (m_objectIndexMultiMap st')" by simp
    then show "multiMapValues (m_objectIndexMultiMap st') k = []"
      by (auto simp: multiMapValues_def filter_empty_conv)
  qed
next
  assume "parentsInPlace N"
  then show "\<exists>st2. rebuild (st\<lparr>m_formWindow := fw\<rparr>) N = Inr st2" by (rule rebuild_succeeds)
qed

theorem C5_witness:
  "multiMapValues (m_objectIndexMultiMap demoState) (Some 9) = [[0, 3], [0, 2, 0]]
   \<and> (\<exists>st'. rebuild (demoState\<lparr>m_formWindow := Some 0\<rparr>) (take 2 demoSnapshot) = Inr st'
          \<and> map fst (rev (m_objectIndexMultiMap st')) = [Some 1, Some 2]
          \<and> multiMapValues (m_objectIndexMultiMap st') (Some 9) = []
          \<and> countAllRows (modelRows st') = 2)"
proof -
  define N2 where "N2 = take 2 demoSnapshot"
  have a: "multiMapValues (m_objectIndexMultiMap demoState) (Some 9) = [[0, 3], [0, 2, 0]]"
    by code_simp
  have p: "parentsInPlace N2"
    by (simp add: N2_def demoSnapshot_def parentsInPlace_def)
  have k: "Some 9 \<notin> set (map m_object N2)"
    by (simp add: N2_def demoSnapshot_def)
  have m: "map m_object N2 = [Some 1, Some 2]"
    by (simp add: N2_def demoSnapshot_def)
  have len: "length N2 = 2" by (simp add: N2_def demoSnapshot_def)
  note c5 = C5_rebuild_index_exact[OF demoState_reachable, of "Some 0" N2]
  from c5 p obtain st2 where r: "rebuild (demoState\<lparr>m_formWindow := Some 0\<rparr>) N2 = Inr st2"
    by blast
  from c5[of st2] r have ex: "exactlyRebuilt (m_icons demoState) N2 (m_objectIndexMultiMap st2) (modelRows st2)"
    and keys: "map fst (rev (m_objectIndexMultiMap st2)) = map m_object N2"
    and gone: "\<forall>k. k \<notin> set (map m_object N2) \<longrightarrow> multiMapValues (m_objectIndexMultiMap st2) k = []"
    by blast+
  from ex len have rows: "countAllRows (modelRows st2) = 2" by (simp add: exactlyRebuilt_def)
  from gone k have none: "multiMapValues (m_objectIndexMultiMap st2) (Some 9) = []" by blast
  from keys m have keys': "map fst (rev (m_objectIndexMultiMap st2)) = [Some 1, Some 2]" by simp
  from r keys' none rows have "\<exists>st'. rebuild (demoState\<lparr>m_formWindow := Some 0\<rparr>) N2 = Inr st'
          \<and> map fst (rev (m_objectIndexMultiMap st')) = [Some 1, Some 2]
          \<and> multiMapValues (m_objectIndexMultiMap st') (Some 9) = []
          \<and> countAllRows (modelRows st') = 2" by (intro exI[of _ st2] conjI)
  with a show ?thesis unfolding N2_def by (rule conjI)
qed

text \<open>
  C6. In a snapshot that the builder produces from a main container, as \<open>update\<close> calls it
  (with a null parent), the first entry has no parent, and the parent of every later entry
  is the object of an earlier entry.
\<close>

theorem C6_parents_before_children:
  assumes "createModelRecursion fuel h fwi ctx None container [] = Inr N"
  shows "N \<noteq> [] \<and> m_parent (N ! 0) = None
     \<and> (\<forall>i<length N. 0 < i \<longrightarrow> (\<exists>j<i. m_parent (N ! i) = m_object (N ! j)))"
proof -
  from createModelRecursion_parents[OF assms] obtain rest where
    N: "N = mkObjectData h ctx None container # rest" and pk: "parentsKnown {Some container} rest"
    by auto
  have "\<exists>j<i. m_parent (N ! i) = m_object (N ! j)" if i: "i < length N" "0 < i" for i
  proof -
    from i obtain k where k: "i = Suc k" by (cases i) auto
    with i N have kl: "k < length rest" by simp
    from parentsKnown_nth[OF pk kl]
    consider "m_parent (rest ! k) = Some container"
      | j where "j < k" "m_parent (rest ! k) = m_object (rest ! j)" by auto
    then show ?thesis
    proof cases
      case 1
      with N k show ?thesis by (intro exI[of _ 0]) simp
    next
      case (2 j)
      with N k show ?thesis by (intro exI[of _ "Suc j"]) simp
    qed
  qed
  with N show ?thesis by simp
qed

theorem C6_witness:
  "createModelRecursion 3 demoHost 0 demoContext None 1 [] = Inr demoSnapshot
   \<and> demoSnapshot \<noteq> [] \<and> m_parent (demoSnapshot ! 0) = None
   \<and> (\<exists>j<4. m_parent (demoSnapshot ! 4) = m_object (demoSnapshot ! j))"
proof -
  have b: "createModelRecursion 3 demoHost 0 demoContext None 1 [] = Inr demoSnapshot"
    by code_simp
  have l: "4 < length demoSnapshot" by (simp add: demoSnapshot_def)
  from C6_parents_before_children[OF b]
  have n: "demoSnapshot \<noteq> []" and r: "m_parent (demoSnapshot ! 0) = None"
    and a: "\<forall>i<length demoSnapshot. 0 < i \<longrightarrow> (\<exists>j<i. m_parent (demoSnapshot ! i) = m_object (demoSnapshot ! j))"
    by blast+
  from a l have "\<exists>j<4. m_parent (demoSnapshot ! 4) = m_object (demoSnapshot ! j)" by simp
  with b n r show ?thesis by blast
qed


section \<open>The patch and the recursion of the builder (C2, C4)\<close>

text \<open>
  C2. In the patch of the rows, the calls of \<open>setItemsDisplayData\<close> that concern an object
  \<open>o'\<close> are these: none if no position holds \<open>o'\<close> with a non-zero change mask; otherwise
  one call for each value the index map has for \<open>o'\<close>, each with the new entry and the mask
  of the first position that holds \<open>o'\<close> with a non-zero mask. So every row of a changed
  object is written exactly once, however many positions of the snapshot hold the object.
  These calls are what \<open>updateItemContents\<close> applies to the rows: after the patch a row of
  the tree holds what the calls on its index make of its items, in order. For a reachable
  model this means that the row at every index the map has for an object holds
  \<open>setItemsDisplayData\<close> of the new entry and the mask, applied once to its old items, when
  the object has a position with a non-zero mask, and its old items otherwise. A call
  writes the columns of its mask only: the name text for the name bit; the class text and
  tool tip for the class bit; for the icon, type and layout bits the layout icon on both
  columns of a layout widget, the layout icon and the class icon of a layoutable
  container, and the null icon and the class icon of any other entry. When the two
  snapshots are coherent (the entries of an object have the same display attributes at
  all its positions) and hold the same objects position by position, the mask and the
  attributes of the one call are those of every position of the object: one patch per
  changed-attribute set, not one per occurrence. That is so in every patch that \<open>update\<close>
  makes: the stored snapshot of a reachable model and the snapshot of a walk are coherent,
  and the patch leaves the stored snapshot displaying the new one.
\<close>

theorem C2_patch_once_per_object:
  "filter (\<lambda>c. m_object (patchEntry c) = o') (snd (updateItemContentsLoop mm {} old new)) =
     (case find (\<lambda>p. compare (fst p) (snd p) \<noteq> 0 \<and> m_object (snd p) = o') (zip old new) of
        None \<Rightarrow> []
      | Some p \<Rightarrow>
          map (\<lambda>index. \<lparr>patchIndex = index, patchEntry = snd p,
                          patchMask = compare (fst p) (snd p)\<rparr>)
              (multiMapValues mm o'))
   \<and> (updateItemContents st newModel = Inr st' \<longrightarrow>
        applyPatchCalls (m_icons st)
          (snd (updateItemContentsLoop (m_objectIndexMultiMap st) {} (m_model st) newModel))
          (modelRows st) = Inr (modelRows st'))
   \<and> (coherent old \<and> coherent new \<and> list_all2 (\<lambda>x y. m_object x = m_object y) old new \<longrightarrow>
       (\<forall>c\<in>set (snd (updateItemContentsLoop mm {} old new)). \<forall>q\<in>set (zip old new).
          m_object (snd q) = m_object (patchEntry c) \<longrightarrow>
          patchMask c = compare (fst q) (snd q) \<and> compare (patchEntry c) (snd q) = 0))
   \<and> (reachable st \<and> createModelRecursion fuel h f ctx None container [] = Inr N
        \<and> identityPairs N = identityPairs (m_model st) \<longrightarrow>
       coherent (m_model st) \<and> coherent N
       \<and> list_all2 (\<lambda>x y. m_object x = m_object y) (m_model st) N)
   \<and> (updateItemContents st newModel = Inr st' \<longrightarrow>
        rowItemsAt q (modelRows st') =
          (case rowItemsAt q (modelRows st) of
             None \<Rightarrow> None
           | Some items \<Rightarrow>
               Some (applyCallsTo (m_icons st)
                       (filter (\<lambda>c. patchIndex c = q)
                          (snd (updateItemContentsLoop (m_objectIndexMultiMap st) {} (m_model st)
                                  newModel)))
                       items)))
   \<and> (reachable st \<and> updateItemContents (st\<lparr>m_formWindow := fw\<rparr>) N = Inr patched
        \<and> (key, q) \<in> set (m_objectIndexMultiMap st) \<longrightarrow>
       (\<exists>items. rowItemsAt q (modelRows st) = Some items
          \<and> rowItemsAt q (modelRows patched) =
              Some (case find (\<lambda>p. compare (fst p) (snd p) \<noteq> 0 \<and> m_object (snd p) = key)
                           (zip (m_model st) N) of
                      None \<Rightarrow> items
                    | Some p \<Rightarrow>
                        setItemsDisplayData (snd p) (m_icons st) (compare (fst p) (snd p)) items)))
   \<and> (reachable st \<and> mainContainer h f = Some container
        \<and> createModelRecursion fuel h f
             (mkModelRecursionContext (translate h ''ObjectInspectorModel'' ''separator''))
             None container [] = Inr N
        \<and> update fuel h (Some f) st = Inr (Updated, patched)
        \<and> (key, q) \<in> set (m_objectIndexMultiMap st) \<longrightarrow>
       (\<exists>items. rowItemsAt q (modelRows st) = Some items
          \<and> rowItemsAt q (modelRows patched) =
              Some (case find (\<lambda>p. compare (fst p) (snd p) \<noteq> 0 \<and> m_object (snd p) = key)
                           (zip (m_model st) N) of
                      None \<Rightarrow> items
                    | Some p \<Rightarrow>
                        setItemsDisplayData (snd p) (m_icons st) (compare (fst p) (snd p)) items)))
   \<and> (updateItemContents st newModel = Inr st'
        \<and> list_all2 (\<lambda>x y. m_object x = m_object y) (m_model st) newModel \<longrightarrow>
       displaysLike (m_model st') newModel)
   \<and> itemText (nameItem (setItemsDisplayData e icons k row)) =
       (if k AND ObjectNameChanged \<noteq> 0 then VString (m_objectName e) else itemText (nameItem row))
   \<and> itemText (classItem (setItemsDisplayData e icons k row)) =
       (if k AND ClassNameChanged \<noteq> 0 then VString (m_className e) else itemText (classItem row))
   \<and> itemToolTip (classItem (setItemsDisplayData e icons k row)) =
       (if k AND ClassNameChanged \<noteq> 0 then VString (m_className e)
        else itemToolTip (classItem row))
   \<and> itemIcon (nameItem (setItemsDisplayData e icons k row)) =
       (if k AND (ClassIconChanged OR TypeChanged OR LayoutTypeChanged) \<noteq> 0
        then (case m_type e of
                LayoutWidget \<Rightarrow> VIcon (icons (m_managedLayoutType e))
              | LayoutableContainer \<Rightarrow> VIcon (icons (m_managedLayoutType e))
              | _ \<Rightarrow> VIcon NullIcon)
        else itemIcon (nameItem row))
   \<and> itemIcon (classItem (setItemsDisplayData e icons k row)) =
       (if k AND (ClassIconChanged OR TypeChanged OR LayoutTypeChanged) \<noteq> 0
        then (case m_type e of
                LayoutWidget \<Rightarrow> VIcon (icons (m_managedLayoutType e))
              | _ \<Rightarrow> VIcon (m_classIcon e))
        else itemIcon (classItem row))
   \<and> itemToolTip (nameItem (setItemsDisplayData e icons k row)) = itemToolTip (nameItem row)
   \<and> itemObject (nameItem (setItemsDisplayData e icons k row)) = itemObject (nameItem row)
   \<and> itemObject (classItem (setItemsDisplayData e icons k row)) = itemObject (classItem row)
   \<and> itemFlags (nameItem (setItemsDisplayData e icons k row)) = itemFlags (nameItem row)
   \<and> itemFlags (classItem (setItemsDisplayData e icons k row)) = itemFlags (classItem row)"
proof (intro conjI impI ballI)
  show "itemText (nameItem (setItemsDisplayData e icons k row)) =
       (if k AND ObjectNameChanged \<noteq> 0 then VString (m_objectName e) else itemText (nameItem row))"
    by (simp add: setItemsDisplayData_def Let_def split: Type.splits)
  show "itemText (classItem (setItemsDisplayData e icons k row)) =
       (if k AND ClassNameChanged \<noteq> 0 then VString (m_className e) else itemText (classItem row))"
    by (simp add: setItemsDisplayData_def Let_def split: Type.splits)
  show "itemToolTip (classItem (setItemsDisplayData e icons k row)) =
       (if k AND ClassNameChanged \<noteq> 0 then VString (m_className e)
        else itemToolTip (classItem row))"
    by (simp add: setItemsDisplayData_def Let_def split: Type.splits)
  show "itemIcon (nameItem (setItemsDisplayData e icons k row)) =
       (if k AND (ClassIconChanged OR TypeChanged OR LayoutTypeChanged) \<noteq> 0
        then (case m_type e of
                LayoutWidget \<Rightarrow> VIcon (icons (m_managedLayoutType e))
              | LayoutableContainer \<Rightarrow> VIcon (icons (m_managedLayoutType e))
              | _ \<Rightarrow> VIcon NullIcon)
        else itemIcon (nameItem row))"
    by (simp add: setItemsDisplayData_def Let_def split: Type.splits)
  show "itemIcon (classItem (setItemsDisplayData e icons k row)) =
       (if k AND (ClassIconChanged OR TypeChanged OR LayoutTypeChanged) \<noteq> 0
        then (case m_type e of
                LayoutWidget \<Rightarrow> VIcon (icons (m_managedLayoutType e))
              | _ \<Rightarrow> VIcon (m_classIcon e))
        else itemIcon (classItem row))"
    by (simp add: setItemsDisplayData_def Let_def split: Type.splits)
  show "itemToolTip (nameItem (setItemsDisplayData e icons k row)) = itemToolTip (nameItem row)"
    and "itemObject (nameItem (setItemsDisplayData e icons k row)) = itemObject (nameItem row)"
    and "itemObject (classItem (setItemsDisplayData e icons k row)) = itemObject (classItem row)"
    and "itemFlags (nameItem (setItemsDisplayData e icons k row)) = itemFlags (nameItem row)"
    and "itemFlags (classItem (setItemsDisplayData e icons k row)) = itemFlags (classItem row)"
    by (simp_all add: setItemsDisplayData_def Let_def split: Type.splits)
  {
    assume u: "updateItemContents st newModel = Inr st'"
    from applyPatchCalls_rows[OF updateItemContents_parts(1)[OF u], of q]
    show "rowItemsAt q (modelRows st') =
          (case rowItemsAt q (modelRows st) of
             None \<Rightarrow> None
           | Some items \<Rightarrow>
               Some (applyCallsTo (m_icons st)
                       (filter (\<lambda>c. patchIndex c = q)
                          (snd (updateItemContentsLoop (m_objectIndexMultiMap st) {} (m_model st)
                                  newModel)))
                       items))" .
  }
  {
    assume "reachable st \<and> updateItemContents (st\<lparr>m_formWindow := fw\<rparr>) N = Inr patched
        \<and> (key, q) \<in> set (m_objectIndexMultiMap st)"
    then have "reachable st" "updateItemContents (st\<lparr>m_formWindow := fw\<rparr>) N = Inr patched"
      "(key, q) \<in> set (m_objectIndexMultiMap st)" by simp_all
    then show "\<exists>items. rowItemsAt q (modelRows st) = Some items
          \<and> rowItemsAt q (modelRows patched) =
              Some (case find (\<lambda>p. compare (fst p) (snd p) \<noteq> 0 \<and> m_object (snd p) = key)
                           (zip (m_model st) N) of
                      None \<Rightarrow> items
                    | Some p \<Rightarrow>
                        setItemsDisplayData (snd p) (m_icons st) (compare (fst p) (snd p)) items)"
      by (rule patched_rows)
  }
  {
    assume "reachable st \<and> mainContainer h f = Some container
        \<and> createModelRecursion fuel h f
             (mkModelRecursionContext (translate h ''ObjectInspectorModel'' ''separator''))
             None container [] = Inr N
        \<and> update fuel h (Some f) st = Inr (Updated, patched)
        \<and> (key, q) \<in> set (m_objectIndexMultiMap st)"
    then have "reachable st" "mainContainer h f = Some container"
      "createModelRecursion fuel h f
             (mkModelRecursionContext (translate h ''ObjectInspectorModel'' ''separator''))
             None container [] = Inr N"
      "update fuel h (Some f) st = Inr (Updated, patched)"
      "(key, q) \<in> set (m_objectIndexMultiMap st)" by simp_all
    then show "\<exists>items. rowItemsAt q (modelRows st) = Some items
          \<and> rowItemsAt q (modelRows patched) =
              Some (case find (\<lambda>p. compare (fst p) (snd p) \<noteq> 0 \<and> m_object (snd p) = key)
                           (zip (m_model st) N) of
                      None \<Rightarrow> items
                    | Some p \<Rightarrow>
                        setItemsDisplayData (snd p) (m_icons st) (compare (fst p) (snd p)) items)"
      by (rule update_patched_rows)
  }
  {
    assume a: "updateItemContents st newModel = Inr st'
        \<and> list_all2 (\<lambda>x y. m_object x = m_object y) (m_model st) newModel"
    then have "m_model st' =
       fst (updateItemContentsLoop (m_objectIndexMultiMap st) {} (m_model st) newModel)"
      by (simp add: updateItemContents_parts(3))
    with a show "displaysLike (m_model st') newModel"
      by (simp add: updateItemContentsLoop_displaysLike)
  }
  show calls: "filter (\<lambda>c. m_object (patchEntry c) = o') (snd (updateItemContentsLoop mm {} old new)) =
     (case find (\<lambda>p. compare (fst p) (snd p) \<noteq> 0 \<and> m_object (snd p) = o') (zip old new) of
        None \<Rightarrow> []
      | Some p \<Rightarrow>
          map (\<lambda>index. \<lparr>patchIndex = index, patchEntry = snd p,
                          patchMask = compare (fst p) (snd p)\<rparr>)
              (multiMapValues mm o'))" for o'
    by (simp add: updateItemContentsLoop_calls)
  {
    assume "updateItemContents st newModel = Inr st'"
    then show "applyPatchCalls (m_icons st)
          (snd (updateItemContentsLoop (m_objectIndexMultiMap st) {} (m_model st) newModel))
          (modelRows st) = Inr (modelRows st')"
      by (auto simp: updateItemContents_def Let_def split: if_splits sum.splits)
  }
  {
    fix c q
    assume "coherent old \<and> coherent new \<and> list_all2 (\<lambda>x y. m_object x = m_object y) old new"
      and c: "c \<in> set (snd (updateItemContentsLoop mm {} old new))"
      and q: "q \<in> set (zip old new)"
      and o: "m_object (snd q) = m_object (patchEntry c)"
    then have "patchMask c = compare (fst q) (snd q) \<and> compare (patchEntry c) (snd q) = 0"
      by (intro patch_mask_of_every_position) simp_all
    then show "patchMask c = compare (fst q) (snd q)" and "compare (patchEntry c) (snd q) = 0"
      by simp_all
  }
  {
    assume a: "reachable st \<and> createModelRecursion fuel h f ctx None container [] = Inr N
        \<and> identityPairs N = identityPairs (m_model st)"
    then show "coherent (m_model st)" by (simp add: reachable_coherent)
    from a show "coherent N" by (auto dest: createModelRecursion_coherent)
    from a have "identityPairs (m_model st) = identityPairs N" by simp
    then show "list_all2 (\<lambda>x y. m_object x = m_object y) (m_model st) N"
      by (rule identityPairs_objects)
  }
qed


theorem C2_witness:
  "length (filter (\<lambda>e. m_object e = Some 9) renamedSnapshot) = 2
   \<and> filter (\<lambda>c. m_object (patchEntry c) = Some 9)
       (snd (updateItemContentsLoop (m_objectIndexMultiMap demoState) {} demoSnapshot renamedSnapshot))
     = [\<lparr>patchIndex = [0, 3], patchEntry = renamedSnapshot ! 4, patchMask = ObjectNameChanged\<rparr>,
        \<lparr>patchIndex = [0, 2, 0], patchEntry = renamedSnapshot ! 4, patchMask = ObjectNameChanged\<rparr>]
   \<and> filter (\<lambda>c. m_object (patchEntry c) = Some 2)
       (snd (updateItemContentsLoop (m_objectIndexMultiMap demoState) {} demoSnapshot renamedSnapshot))
     = []
   \<and> patchMask (hd (snd (updateItemContentsLoop (m_objectIndexMultiMap demoState) {}
          demoSnapshot renamedSnapshot)))
     = compare (demoSnapshot ! 5) (renamedSnapshot ! 5)
   \<and> (\<exists>rows. applyPatchCalls (m_icons demoState)
          (snd (updateItemContentsLoop (m_objectIndexMultiMap demoState) {} (m_model demoState)
             renamedSnapshot))
          (modelRows demoState) = Inr rows)
   \<and> itemIcon (nameItem (setItemsDisplayData (renamedSnapshot ! 4) (m_icons demoState)
          ObjectNameChanged (createModelRow (Some 9))))
     = itemIcon (nameItem (createModelRow (Some 9)))
   \<and> (\<exists>st2. update 3 renamedHost (Some 0) demoState = Inr (Updated, st2)
        \<and> map_option (\<lambda>it. itemText (nameItem it)) (rowItemsAt [0, 3] (modelRows demoState))
            = Some (VString ''actionOpen'')
        \<and> map_option (\<lambda>it. itemText (nameItem it)) (rowItemsAt [0, 3] (modelRows st2))
            = Some (VString ''actionLoad'')
        \<and> map_option (\<lambda>it. itemText (nameItem it)) (rowItemsAt [0, 2, 0] (modelRows st2))
            = Some (VString ''actionLoad'')
        \<and> rowItemsAt [0, 0] (modelRows st2) = rowItemsAt [0, 0] (modelRows demoState))
   \<and> (\<exists>st3. update 3 laidOutHost (Some 0) demoState = Inr (Updated, st3)
        \<and> map_option (\<lambda>it. (itemIcon (nameItem it), itemIcon (classItem it)))
              (rowItemsAt [0] (modelRows demoState))
            = Some (VIcon NullIcon, VIcon NullIcon)
        \<and> map_option (\<lambda>it. (itemIcon (nameItem it), itemIcon (classItem it)))
              (rowItemsAt [0] (modelRows st3))
            = Some (VIcon (Icon 12), VIcon (Icon 7)))"
proof -
  let ?calls = "snd (updateItemContentsLoop (m_objectIndexMultiMap demoState) {} demoSnapshot
                  renamedSnapshot)"
  note c2 = C2_patch_once_per_object[where mm = "m_objectIndexMultiMap demoState"
              and old = demoSnapshot and new = renamedSnapshot]
  have 1: "length (filter (\<lambda>e. m_object e = Some 9) renamedSnapshot) = 2" by code_simp
  have 2: "filter (\<lambda>c. m_object (patchEntry c) = Some 9) ?calls
     = [\<lparr>patchIndex = [0, 3], patchEntry = renamedSnapshot ! 4, patchMask = ObjectNameChanged\<rparr>,
        \<lparr>patchIndex = [0, 2, 0], patchEntry = renamedSnapshot ! 4, patchMask = ObjectNameChanged\<rparr>]"
    unfolding c2[THEN conjunct1] by code_simp
  have 3: "filter (\<lambda>c. m_object (patchEntry c) = Some 2) ?calls = []"
    unfolding c2[THEN conjunct1] by code_simp
  have eq: "identityPairs renamedSnapshot = identityPairs (m_model demoState)"
    unfolding demoState_model by code_simp
  from C2_patch_once_per_object[where st = demoState and fuel = 3 and h = renamedHost
         and f = 0 and container = 1 and N = renamedSnapshot
         and ctx = "mkModelRecursionContext (translate renamedHost ''ObjectInspectorModel'' ''separator'')",
         THEN conjunct2, THEN conjunct2, THEN conjunct2, THEN conjunct1]
       conjI[OF demoState_reachable conjI[OF renamedSnapshot_built eq]]
  have "coherent (m_model demoState) \<and> coherent renamedSnapshot
       \<and> list_all2 (\<lambda>x y. m_object x = m_object y) (m_model demoState) renamedSnapshot"
    by (rule mp)
  then have coh: "coherent demoSnapshot \<and> coherent renamedSnapshot
       \<and> list_all2 (\<lambda>x y. m_object x = m_object y) demoSnapshot renamedSnapshot"
    unfolding demoState_model .
  have mem: "hd ?calls \<in> set ?calls" by code_simp
  have q: "(demoSnapshot ! 5, renamedSnapshot ! 5) \<in> set (zip demoSnapshot renamedSnapshot)"
    by code_simp
  have o: "m_object (snd (demoSnapshot ! 5, renamedSnapshot ! 5)) = m_object (patchEntry (hd ?calls))"
    by code_simp
  from c2[THEN conjunct2, THEN conjunct2, THEN conjunct1] coh
  have "\<forall>c\<in>set ?calls. \<forall>q\<in>set (zip demoSnapshot renamedSnapshot).
          m_object (snd q) = m_object (patchEntry c) \<longrightarrow>
          patchMask c = compare (fst q) (snd q) \<and> compare (patchEntry c) (snd q) = 0"
    by (rule mp)
  from this[rule_format, OF mem q o]
  have 4: "patchMask (hd ?calls) = compare (demoSnapshot ! 5) (renamedSnapshot ! 5)" by simp
  have "modelInvariant demoState" using demoState_reachable by (rule reachable_invariant)
  moreover have "length (m_model demoState) = length renamedSnapshot"
    unfolding demoState_model by code_simp
  ultimately obtain st' where u: "updateItemContents demoState renamedSnapshot = Inr st'"
    using updateItemContents_succeeds by blast
  from C2_patch_once_per_object[where st = demoState and newModel = renamedSnapshot
         and st' = st', THEN conjunct2, THEN conjunct1] u
  have "applyPatchCalls (m_icons demoState)
          (snd (updateItemContentsLoop (m_objectIndexMultiMap demoState) {} (m_model demoState)
             renamedSnapshot))
          (modelRows demoState) = Inr (modelRows st')"
    by (rule mp)
  then have 5: "\<exists>rows. applyPatchCalls (m_icons demoState)
          (snd (updateItemContentsLoop (m_objectIndexMultiMap demoState) {} (m_model demoState)
             renamedSnapshot))
          (modelRows demoState) = Inr rows"
    by (rule exI)
  have k: "ObjectNameChanged AND (ClassIconChanged OR TypeChanged OR LayoutTypeChanged) = 0"
    by (simp add: ObjectNameChanged_def ClassIconChanged_def TypeChanged_def LayoutTypeChanged_def)
  have 6: "itemIcon (nameItem (setItemsDisplayData (renamedSnapshot ! 4) (m_icons demoState)
          ObjectNameChanged (createModelRow (Some 9))))
     = itemIcon (nameItem (createModelRow (Some 9)))"
    unfolding C2_patch_once_per_object[where e = "renamedSnapshot ! 4"
         and icons = "m_icons demoState" and k = ObjectNameChanged
         and row = "createModelRow (Some 9)", THEN conjunct2, THEN conjunct2, THEN conjunct2, THEN conjunct2, THEN conjunct2, THEN conjunct2, THEN conjunct2, THEN conjunct2, THEN conjunct2, THEN conjunct2, THEN conjunct2, THEN conjunct1]
    by (simp add: k)
  have mcR: "mainContainer renamedHost 0 = Some 1" by code_simp
  have idR: "identityPairs renamedSnapshot = identityPairs demoSnapshot" by code_simp
  from demoState_patched[OF mcR renamedSnapshot_built idR] obtain st2 where
    u2: "update 3 renamedHost (Some 0) demoState = Inr (Updated, st2)" ..
  have nn: "ObjectNameChanged \<noteq> 0" by (simp add: ObjectNameChanged_def)
  have on: "m_objectName (renamedSnapshot ! 4) = ''actionLoad''" by code_simp
  have f9: "find (\<lambda>p. compare (fst p) (snd p) \<noteq> 0 \<and> m_object (snd p) = Some 9)
              (zip (m_model demoState) renamedSnapshot) = Some (demoSnapshot ! 4, renamedSnapshot ! 4)"
    unfolding demoState_model by code_simp
  have m9: "compare (demoSnapshot ! 4) (renamedSnapshot ! 4) = ObjectNameChanged" by code_simp
  have renamed: "map_option (\<lambda>it. itemText (nameItem it)) (rowItemsAt q (modelRows st2))
            = Some (VString ''actionLoad'')"
    if kq: "(Some 9, q) \<in> set (m_objectIndexMultiMap demoState)" for q
  proof -
    from C2_patch_once_per_object[where st = demoState and h = renamedHost and f = 0
           and container = 1 and fuel = 3 and N = renamedSnapshot and patched = st2
           and key = "Some 9" and q = q, THEN conjunct2, THEN conjunct2, THEN conjunct2, THEN conjunct2, THEN conjunct2, THEN conjunct2, THEN conjunct1]
         conjI[OF demoState_reachable conjI[OF mcR conjI[OF renamedSnapshot_built conjI[OF u2 kq]]]]
    have "\<exists>items. rowItemsAt q (modelRows demoState) = Some items
          \<and> rowItemsAt q (modelRows st2) =
              Some (case find (\<lambda>p. compare (fst p) (snd p) \<noteq> 0 \<and> m_object (snd p) = Some 9)
                           (zip (m_model demoState) renamedSnapshot) of
                      None \<Rightarrow> items
                    | Some p \<Rightarrow>
                        setItemsDisplayData (snd p) (m_icons demoState) (compare (fst p) (snd p))
                          items)"
      by (rule mp)
    then obtain items where
      b: "rowItemsAt q (modelRows st2) =
            Some (setItemsDisplayData (renamedSnapshot ! 4) (m_icons demoState) ObjectNameChanged
                    items)"
      unfolding f9 by (auto simp: m9)
    have "itemText (nameItem (setItemsDisplayData (renamedSnapshot ! 4) (m_icons demoState)
             ObjectNameChanged items)) = VString ''actionLoad''"
      unfolding C2_patch_once_per_object[where e = "renamedSnapshot ! 4"
         and icons = "m_icons demoState" and k = ObjectNameChanged and row = items, THEN conjunct2, THEN conjunct2, THEN conjunct2, THEN conjunct2, THEN conjunct2, THEN conjunct2, THEN conjunct2, THEN conjunct2, THEN conjunct1]
      by (simp add: nn on)
    with b show ?thesis by simp
  qed
  have k93: "(Some 9, [0, 3]) \<in> set (m_objectIndexMultiMap demoState)" by code_simp
  have k920: "(Some 9, [0, 2, 0]) \<in> set (m_objectIndexMultiMap demoState)" by code_simp
  have k2: "(Some 2, [0, 0]) \<in> set (m_objectIndexMultiMap demoState)" by code_simp
  have k1: "(Some 1, [0]) \<in> set (m_objectIndexMultiMap demoState)" by code_simp
  have f2: "find (\<lambda>p. compare (fst p) (snd p) \<noteq> 0 \<and> m_object (snd p) = Some 2)
              (zip (m_model demoState) renamedSnapshot) = None"
    unfolding demoState_model by code_simp
  from C2_patch_once_per_object[where st = demoState and h = renamedHost and f = 0
         and container = 1 and fuel = 3 and N = renamedSnapshot and patched = st2
         and key = "Some 2" and q = "[0, 0]", THEN conjunct2, THEN conjunct2, THEN conjunct2, THEN conjunct2, THEN conjunct2, THEN conjunct2, THEN conjunct1]
       conjI[OF demoState_reachable conjI[OF mcR conjI[OF renamedSnapshot_built conjI[OF u2 k2]]]]
  have "\<exists>items. rowItemsAt [0, 0] (modelRows demoState) = Some items
          \<and> rowItemsAt [0, 0] (modelRows st2) =
              Some (case find (\<lambda>p. compare (fst p) (snd p) \<noteq> 0 \<and> m_object (snd p) = Some 2)
                           (zip (m_model demoState) renamedSnapshot) of
                      None \<Rightarrow> items
                    | Some p \<Rightarrow>
                        setItemsDisplayData (snd p) (m_icons demoState) (compare (fst p) (snd p))
                          items)"
    by (rule mp)
  then have kept: "rowItemsAt [0, 0] (modelRows st2) = rowItemsAt [0, 0] (modelRows demoState)"
    unfolding f2 by auto
  have before: "map_option (\<lambda>it. itemText (nameItem it)) (rowItemsAt [0, 3] (modelRows demoState))
            = Some (VString ''actionOpen'')"
    by code_simp
  from u2 before renamed[OF k93] renamed[OF k920] kept
  have 7: "\<exists>st2. update 3 renamedHost (Some 0) demoState = Inr (Updated, st2)
        \<and> map_option (\<lambda>it. itemText (nameItem it)) (rowItemsAt [0, 3] (modelRows demoState))
            = Some (VString ''actionOpen'')
        \<and> map_option (\<lambda>it. itemText (nameItem it)) (rowItemsAt [0, 3] (modelRows st2))
            = Some (VString ''actionLoad'')
        \<and> map_option (\<lambda>it. itemText (nameItem it)) (rowItemsAt [0, 2, 0] (modelRows st2))
            = Some (VString ''actionLoad'')
        \<and> rowItemsAt [0, 0] (modelRows st2) = rowItemsAt [0, 0] (modelRows demoState)"
    by (intro exI[of _ st2] conjI)
  have mcL: "mainContainer laidOutHost 0 = Some 1" by code_simp
  have idL: "identityPairs laidOutSnapshot = identityPairs demoSnapshot" by code_simp
  from demoState_patched[OF mcL laidOutSnapshot_built idL] obtain st3 where
    u3: "update 3 laidOutHost (Some 0) demoState = Inr (Updated, st3)" ..
  have f1: "find (\<lambda>p. compare (fst p) (snd p) \<noteq> 0 \<and> m_object (snd p) = Some 1)
              (zip (m_model demoState) laidOutSnapshot) = Some (demoSnapshot ! 0, laidOutSnapshot ! 0)"
    unfolding demoState_model by code_simp
  have m1: "compare (demoSnapshot ! 0) (laidOutSnapshot ! 0)
              AND (ClassIconChanged OR TypeChanged OR LayoutTypeChanged) \<noteq> 0"
    by code_simp
  have ty: "m_type (laidOutSnapshot ! 0) = LayoutableContainer"
    and lt: "m_managedLayoutType (laidOutSnapshot ! 0) = Grid"
    and ci: "m_classIcon (laidOutSnapshot ! 0) = Icon 7"
    and gi: "m_icons demoState Grid = Icon 12"
    by code_simp+
  from C2_patch_once_per_object[where st = demoState and h = laidOutHost and f = 0
         and container = 1 and fuel = 3 and N = laidOutSnapshot and patched = st3
         and key = "Some 1" and q = "[0]", THEN conjunct2, THEN conjunct2, THEN conjunct2, THEN conjunct2, THEN conjunct2, THEN conjunct2, THEN conjunct1]
       conjI[OF demoState_reachable conjI[OF mcL conjI[OF laidOutSnapshot_built conjI[OF u3 k1]]]]
  have "\<exists>items. rowItemsAt [0] (modelRows demoState) = Some items
          \<and> rowItemsAt [0] (modelRows st3) =
              Some (case find (\<lambda>p. compare (fst p) (snd p) \<noteq> 0 \<and> m_object (snd p) = Some 1)
                           (zip (m_model demoState) laidOutSnapshot) of
                      None \<Rightarrow> items
                    | Some p \<Rightarrow>
                        setItemsDisplayData (snd p) (m_icons demoState) (compare (fst p) (snd p))
                          items)"
    by (rule mp)
  then obtain items where
    b3: "rowItemsAt [0] (modelRows st3) =
            Some (setItemsDisplayData (laidOutSnapshot ! 0) (m_icons demoState)
                    (compare (demoSnapshot ! 0) (laidOutSnapshot ! 0)) items)"
    unfolding f1 by auto
  have ni: "itemIcon (nameItem (setItemsDisplayData (laidOutSnapshot ! 0) (m_icons demoState)
                    (compare (demoSnapshot ! 0) (laidOutSnapshot ! 0)) items)) = VIcon (Icon 12)"
    unfolding C2_patch_once_per_object[where e = "laidOutSnapshot ! 0"
         and icons = "m_icons demoState" and k = "compare (demoSnapshot ! 0) (laidOutSnapshot ! 0)"
         and row = items, THEN conjunct2, THEN conjunct2, THEN conjunct2, THEN conjunct2, THEN conjunct2, THEN conjunct2, THEN conjunct2, THEN conjunct2, THEN conjunct2, THEN conjunct2, THEN conjunct2, THEN conjunct1]
    by (simp add: m1 ty lt gi)
  have cl: "itemIcon (classItem (setItemsDisplayData (laidOutSnapshot ! 0) (m_icons demoState)
                    (compare (demoSnapshot ! 0) (laidOutSnapshot ! 0)) items)) = VIcon (Icon 7)"
    unfolding C2_patch_once_per_object[where e = "laidOutSnapshot ! 0"
         and icons = "m_icons demoState" and k = "compare (demoSnapshot ! 0) (laidOutSnapshot ! 0)"
         and row = items, THEN conjunct2, THEN conjunct2, THEN conjunct2, THEN conjunct2, THEN conjunct2, THEN conjunct2, THEN conjunct2, THEN conjunct2, THEN conjunct2, THEN conjunct2, THEN conjunct2, THEN conjunct2, THEN conjunct1]
    by (simp add: m1 ty ci)
  have after3: "map_option (\<lambda>it. (itemIcon (nameItem it), itemIcon (classItem it)))
              (rowItemsAt [0] (modelRows st3))
            = Some (VIcon (Icon 12), VIcon (Icon 7))"
    unfolding b3 by (simp add: ni cl)
  have before3: "map_option (\<lambda>it. (itemIcon (nameItem it), itemIcon (classItem it)))
              (rowItemsAt [0] (modelRows demoState))
            = Some (VIcon NullIcon, VIcon NullIcon)"
    by code_simp
  from u3 before3 after3
  have 8: "\<exists>st3. update 3 laidOutHost (Some 0) demoState = Inr (Updated, st3)
        \<and> map_option (\<lambda>it. (itemIcon (nameItem it), itemIcon (classItem it)))
              (rowItemsAt [0] (modelRows demoState))
            = Some (VIcon NullIcon, VIcon NullIcon)
        \<and> map_option (\<lambda>it. (itemIcon (nameItem it), itemIcon (classItem it)))
              (rowItemsAt [0] (modelRows st3))
            = Some (VIcon (Icon 12), VIcon (Icon 7))"
    by (intro exI[of _ st3] conjI)
  from 1 2 3 4 5 6 7 8 show ?thesis by (intro conjI)
qed

text \<open>
  C4 (as amended). The recursion over a node returns exactly when the recursion over each
  of its targets returns, and then its snapshot is the entry of the node followed by the
  snapshots of the targets in this order: the pages of the container extension if the node
  is an extension container, and then none of its widget children, else its managed widget
  children; then those child objects that are no widgets, have a meta data base entry and
  are button groups; last, for a widget, its actions that have a meta data base entry, an
  action with a menu replaced by the menu.
\<close>

theorem C4_recursion_targets:
  "(createModelRecursion (Suc fuel) h fwi ctx parent object [] = Inr s) =
   (\<exists>subs. visitsEach (createModelRecursion fuel h fwi ctx (Some object))
             (recursionTargets h fwi object (m_type (mkObjectData h ctx parent object))) subs
          \<and> s = mkObjectData h ctx parent object # concat subs)"
proof -
  have "appendsSnapshot (createModelRecursion fuel h fwi ctx (Some object))"
    by (rule createModelRecursion_appendsSnapshot)
  from createModelRecursion_Suc_visits[OF this, of parent "[]" s] show ?thesis by simp
qed

theorem C4_witness:
  "\<exists>subs. visitsEach (createModelRecursion 2 demoHost 0 demoContext (Some 1))
            [Some 2, Some 3, Some 8, Some 9] subs
         \<and> demoSnapshot = demoSnapshot ! 0 # concat subs"
proof -
  have b: "createModelRecursion (Suc 2) demoHost 0 demoContext None 1 [] = Inr demoSnapshot"
    by code_simp
  have e: "mkObjectData demoHost demoContext None 1 = demoSnapshot ! 0" by code_simp
  have t: "recursionTargets demoHost 0 1 (m_type (demoSnapshot ! 0))
           = [Some 2, Some 3, Some 8, Some 9]"
    by code_simp
  from C4_recursion_targets[of 2 demoHost 0 demoContext None 1 demoSnapshot] b
  have "\<exists>subs. visitsEach (createModelRecursion 2 demoHost 0 demoContext (Some 1))
             (recursionTargets demoHost 0 1 (m_type (mkObjectData demoHost demoContext None 1))) subs
          \<and> demoSnapshot = mkObjectData demoHost demoContext None 1 # concat subs"
    by (simp only: simp_thms)
  then show ?thesis unfolding e unfolding t .
qed

text \<open>
  C4 as the specification words it fails on the form above: the child object 5 has a
  meta data base entry and is no widget, and 7 is an attached action, so both are among
  the targets it names; the snapshot of the form holds neither.
\<close>

theorem C4_counterexample:
  "createModelRecursion 3 demoHost 0 demoContext None 1 [] = Inr demoSnapshot
   \<and> map m_object demoSnapshot = [Some 1, Some 2, Some 3, Some 8, Some 9, Some 9]
   \<and> claimedTargets demoHost 0 1 (m_type (mkObjectData demoHost demoContext None 1))
       = [Some 2, Some 3, Some 5, Some 8, Some 9, Some 7]
   \<and> 5 \<in> set (children demoHost 1) \<and> \<not> isWidgetType demoHost 5 \<and> metaDataBaseItem demoHost 5
   \<and> 7 \<in> set (widgetActions demoHost 1)"
  by code_simp


section \<open>The editable name cell (C7, C9, C10)\<close>

text \<open>
  C7. A rename (\<open>setData\<close> with the edit role, on a model that has a form window, at an
  index that names an object) returns true and appends one set-property command to the
  command history of that form window: for the property \<open>layoutName\<close> when the object is a
  \<open>QLayoutWidget\<close>, for \<open>objectName\<close> otherwise, with the string of the value, for that object.
  Nothing else of the host changes (the name of the object is as before), and the model
  is unchanged.
\<close>

theorem C7_rename_pushes_property_command:
  assumes "m_formWindow st = Some fw" and "objectAt st index = Some object"
  shows "setData h st index v EditRole =
           (True,
            h\<lparr>commandHistory := (commandHistory h)
                 (fw := commandHistory h fw @
                    [SetPropertyCommand
                       (if isQLayoutWidget h object then ''layoutName'' else ''objectName'')
                       (toString v) object fw])\<rparr>,
            st)
     \<and> objectName (fst (snd (setData h st index v EditRole))) = objectName h
     \<and> snd (snd (setData h st index v EditRole)) = st"
  using assms
  by (simp add: setData_def pushCommand_def createTextPropertyCommand_def Let_def)

theorem C7_witness:
  "commandHistory (fst (snd (setData demoHost demoState (ModelIndex [0, 0] 0)
       (VString ''okButton'') EditRole))) 0
     = [SetPropertyCommand ''objectName'' ''okButton'' 2 0]
   \<and> commandHistory (fst (snd (setData (demoHost\<lparr>isQLayoutWidget := (\<lambda>x. x = 2)\<rparr>) demoState
       (ModelIndex [0, 0] 0) (VString ''gridLayout'') EditRole))) 0
     = [SetPropertyCommand ''layoutName'' ''gridLayout'' 2 0]
   \<and> objectName (fst (snd (setData demoHost demoState (ModelIndex [0, 0] 0)
       (VString ''okButton'') EditRole))) 2 = ''pushButton''"
proof -
  have f: "m_formWindow demoState = Some 0" by code_simp
  have o: "objectAt demoState (ModelIndex [0, 0] 0) = Some 2" by code_simp
  have a: "commandHistory demoHost 0 = []" "isQLayoutWidget demoHost 2 = False"
    "objectName demoHost 2 = ''pushButton''"
    by (simp_all add: demoHost_def)
  note c = C7_rename_pushes_property_command[OF f o, of demoHost "VString ''okButton''"]
    and d = C7_rename_pushes_property_command[OF f o, of "demoHost\<lparr>isQLayoutWidget := (\<lambda>x. x = 2)\<rparr>"
               "VString ''gridLayout''"]
  from c a have 1: "commandHistory (fst (snd (setData demoHost demoState (ModelIndex [0, 0] 0)
       (VString ''okButton'') EditRole))) 0
     = [SetPropertyCommand ''objectName'' ''okButton'' 2 0]"
    by (simp add: toString_def)
  from d a have 2: "commandHistory (fst (snd (setData (demoHost\<lparr>isQLayoutWidget := (\<lambda>x. x = 2)\<rparr>) demoState
       (ModelIndex [0, 0] 0) (VString ''gridLayout'') EditRole))) 0
     = [SetPropertyCommand ''layoutName'' ''gridLayout'' 2 0]"
    by (simp add: toString_def)
  from c a have 3: "objectName (fst (snd (setData demoHost demoState (ModelIndex [0, 0] 0)
       (VString ''okButton'') EditRole))) 2 = ''pushButton''"
    by simp
  from 1 2 3 show ?thesis by (intro conjI)
qed

text \<open>
  C9. \<open>data\<close> returns what \<open>QStandardItemModel::data\<close> returns, except that for the display
  role an empty string is replaced by the translation of \<open><noname>\<close>. For every other role
  the value is returned as it is; in particular an item whose text is the empty string
  gives the empty string for the edit role (the edit role reads the text) and the
  placeholder for the display role.
\<close>

theorem C9_noname_for_display_role_only:
  "data h st index role =
     (if role = DisplayRole \<and> QStandardItemModel_data st index role = VString []
      then VString (translate h ''ObjectInspectorModel'' ''<noname>'')
      else QStandardItemModel_data st index role)
   \<and> (role \<noteq> DisplayRole \<longrightarrow> data h st index role = QStandardItemModel_data st index role)
   \<and> (itemFromIndex (modelRows st) index = Some item \<and> itemText item = VString [] \<longrightarrow>
        data h st index EditRole = VString []
        \<and> data h st index DisplayRole = VString (translate h ''ObjectInspectorModel'' ''<noname>''))"
  by (auto simp: data_def QStandardItemModel_data_def QStandardItem_data_def Let_def
      DisplayRole_def EditRole_def split: QVariant.splits)

theorem C9_witness:
  "data demoHost demoState (ModelIndex [0, 1] 0) EditRole = VString []
   \<and> data demoHost demoState (ModelIndex [0, 1] 0) DisplayRole = VString ''<noname>''
   \<and> data demoHost demoState (ModelIndex [0, 1] 0) EditRole
       = QStandardItemModel_data demoState (ModelIndex [0, 1] 0) EditRole
   \<and> data demoHost demoState (ModelIndex [0, 0] 0) DisplayRole = VString ''pushButton''"
proof -
  obtain item where i: "itemFromIndex (modelRows demoState) (ModelIndex [0, 1] 0) = Some item"
    and t: "itemText item = VString []"
  proof
    show "itemFromIndex (modelRows demoState) (ModelIndex [0, 1] 0)
          = Some (the (itemFromIndex (modelRows demoState) (ModelIndex [0, 1] 0)))"
      by code_simp
    show "itemText (the (itemFromIndex (modelRows demoState) (ModelIndex [0, 1] 0))) = VString []"
      by code_simp
  qed
  have r: "EditRole \<noteq> DisplayRole" by (simp add: DisplayRole_def EditRole_def)
  have tr: "translate demoHost ''ObjectInspectorModel'' ''<noname>'' = ''<noname>''"
    by (simp add: demoHost_def)
  have b: "QStandardItemModel_data demoState (ModelIndex [0, 0] 0) DisplayRole = VString ''pushButton''"
    by code_simp
  note c = C9_noname_for_display_role_only[of demoHost demoState]
  from c[of "ModelIndex [0, 1] 0" EditRole item, THEN conjunct2, THEN conjunct2] i t
  have "data demoHost demoState (ModelIndex [0, 1] 0) EditRole = VString []
        \<and> data demoHost demoState (ModelIndex [0, 1] 0) DisplayRole
           = VString (translate demoHost ''ObjectInspectorModel'' ''<noname>'')"
    by (simp only: simp_thms)
  with tr have 1: "data demoHost demoState (ModelIndex [0, 1] 0) EditRole = VString []"
    and 2: "data demoHost demoState (ModelIndex [0, 1] 0) DisplayRole = VString ''<noname>''"
    by simp_all
  from c[of "ModelIndex [0, 1] 0" EditRole item, THEN conjunct2, THEN conjunct1] r
  have 3: "data demoHost demoState (ModelIndex [0, 1] 0) EditRole
       = QStandardItemModel_data demoState (ModelIndex [0, 1] 0) EditRole"
    by (simp only: simp_thms)
  from c[of "ModelIndex [0, 0] 0" DisplayRole item, THEN conjunct1] b
  have 4: "data demoHost demoState (ModelIndex [0, 0] 0) DisplayRole = VString ''pushButton''"
    by simp
  from 1 2 3 4 show ?thesis by (intro conjI)
qed

text \<open>
  C10. \<open>setData\<close> returns false and leaves the host, with every command history, and the
  model as they are when the role is not the edit role, or the model has no form window,
  or the index names no object. In every other case it returns true and the command
  history of the model's form window is the old one with exactly one command appended;
  no other command history changes.
\<close>

theorem C10_setData_result:
  "(role \<noteq> EditRole \<or> m_formWindow st = None \<or> objectAt st index = None \<longrightarrow>
      setData h st index v role = (False, h, st))
   \<and> (role = EditRole \<and> m_formWindow st = Some fw \<and> objectAt st index = Some object \<longrightarrow>
      fst (setData h st index v role) = True
      \<and> (\<exists>cmd. commandHistory (fst (snd (setData h st index v role))) fw
                 = commandHistory h fw @ [cmd])
      \<and> (\<forall>g. g \<noteq> fw \<longrightarrow>
             commandHistory (fst (snd (setData h st index v role))) g = commandHistory h g))"
  by (auto simp: setData_def pushCommand_def Let_def split: option.splits)

theorem C10_witness:
  "setData demoHost demoState (ModelIndex [0, 0] 0) (VString ''x'') DisplayRole
     = (False, demoHost, demoState)
   \<and> setData demoHost (newObjectInspectorModel demoHost) (ModelIndex [0, 0] 0) (VString ''x'') EditRole
     = (False, demoHost, newObjectInspectorModel demoHost)
   \<and> setData demoHost demoState (ModelIndex [0, 7] 0) (VString ''x'') EditRole
     = (False, demoHost, demoState)
   \<and> fst (setData demoHost demoState (ModelIndex [0, 0] 0) (VString ''x'') EditRole) = True
   \<and> length (commandHistory (fst (snd (setData demoHost demoState (ModelIndex [0, 0] 0)
        (VString ''x'') EditRole))) 0) = 1"
proof -
  have f: "m_formWindow demoState = Some 0" by code_simp
  have o: "objectAt demoState (ModelIndex [0, 0] 0) = Some 2" by code_simp
  have n: "objectAt demoState (ModelIndex [0, 7] 0) = None" by code_simp
  have w: "m_formWindow (newObjectInspectorModel demoHost) = None"
    by (simp add: newObjectInspectorModel_def)
  have r: "DisplayRole \<noteq> EditRole" by (simp add: DisplayRole_def EditRole_def)
  have e: "commandHistory demoHost 0 = []" by (simp add: demoHost_def)
  note c = C10_setData_result[of _ _ _ demoHost "VString ''x''"]
  from c[of DisplayRole demoState "ModelIndex [0, 0] 0"] r
  have 1: "setData demoHost demoState (ModelIndex [0, 0] 0) (VString ''x'') DisplayRole
     = (False, demoHost, demoState)" by simp
  from c[of EditRole "newObjectInspectorModel demoHost" "ModelIndex [0, 0] 0"] w
  have 2: "setData demoHost (newObjectInspectorModel demoHost) (ModelIndex [0, 0] 0) (VString ''x'') EditRole
     = (False, demoHost, newObjectInspectorModel demoHost)" by simp
  from c[of EditRole demoState "ModelIndex [0, 7] 0"] n
  have 3: "setData demoHost demoState (ModelIndex [0, 7] 0) (VString ''x'') EditRole
     = (False, demoHost, demoState)" by simp
  from c[of EditRole demoState "ModelIndex [0, 0] 0" 0 2] f o
  have 4: "fst (setData demoHost demoState (ModelIndex [0, 0] 0) (VString ''x'') EditRole) = True"
    and "\<exists>cmd. commandHistory (fst (snd (setData demoHost demoState (ModelIndex [0, 0] 0)
        (VString ''x'') EditRole))) 0 = commandHistory demoHost 0 @ [cmd]"
    by simp_all
  with e have 5: "length (commandHistory (fst (snd (setData demoHost demoState (ModelIndex [0, 0] 0)
        (VString ''x'') EditRole))) 0) = 1"
    by auto
  from 1 2 3 4 5 show ?thesis by (intro conjI)
qed


end
